theory Spec2Isabelle
  imports Complex_Main
begin

section \<open>Python values shared by the modules\<close>

text \<open>
  Exceptions are values. Every class below derives from Python's \<open>Exception\<close>, so an
  \<open>except Exception\<close> clause (and a bare \<open>except\<close>) catches each of them;
  \<open>KeyboardInterrupt\<close> and \<open>SystemExit\<close> are outside the model. The string is
  \<open>str(e)\<close>.
\<close>

datatype exn_class =
    OSError | RuntimeError | UnboundLocalError | IndexError | AttributeError
  | ValueError | ZeroDivisionError | CancelledError | MutagenError | PlainException

datatype pyexn = Raised exn_class string

fun exn_str :: "pyexn \<Rightarrow> string" where
  "exn_str (Raised c s) = s"

fun exn_cls :: "pyexn \<Rightarrow> exn_class" where
  "exn_cls (Raised c s) = c"

text \<open>Sequencing of a computation that may raise: the first raise wins.\<close>

fun and_then :: "pyexn + 'a \<Rightarrow> ('a \<Rightarrow> pyexn + 'b) \<Rightarrow> pyexn + 'b" where
  "and_then (Inl e) f = Inl e"
| "and_then (Inr x) f = f x"

text \<open>\<open>str.lower()\<close> on the ASCII letters; every other character is kept.\<close>

definition lower_char :: "char \<Rightarrow> char" where
  "lower_char c =
     (case map_of (zip ''ABCDEFGHIJKLMNOPQRSTUVWXYZ'' ''abcdefghijklmnopqrstuvwxyz'') c of
        Some l \<Rightarrow> l
      | None \<Rightarrow> c)"

definition upper_char :: "char \<Rightarrow> char" where
  "upper_char c =
     (case map_of (zip ''abcdefghijklmnopqrstuvwxyz'' ''ABCDEFGHIJKLMNOPQRSTUVWXYZ'') c of
        Some u \<Rightarrow> u
      | None \<Rightarrow> c)"

definition lower :: "string \<Rightarrow> string" where
  "lower s = map lower_char s"

definition upper :: "string \<Rightarrow> string" where
  "upper s = map upper_char s"

text \<open>\<open>needle in hay\<close> on strings: \<open>needle\<close> occurs as a contiguous run.\<close>

fun starts_with :: "string \<Rightarrow> string \<Rightarrow> bool" where
  "starts_with [] hay = True"
| "starts_with (n # ns) [] = False"
| "starts_with (n # ns) (h # hs) = (n = h \<and> starts_with ns hs)"

fun str_contains :: "string \<Rightarrow> string \<Rightarrow> bool" where
  "str_contains needle [] = (needle = [])"
| "str_contains needle (h # hs) = (starts_with needle (h # hs) \<or> str_contains needle hs)"

text \<open>
  \<open>s.split(sep, 1)\<close> for a one-character separator: at most one cut, at the first
  occurrence; the result is the list Python returns.
\<close>

definition split_once :: "char \<Rightarrow> string \<Rightarrow> string list" where
  "split_once sep s =
     (if sep \<in> set s
      then [takeWhile (\<lambda>c. c \<noteq> sep) s, tl (dropWhile (\<lambda>c. c \<noteq> sep) s)]
      else [s])"

section \<open>Tag transcription (ohopus/tagging/tags.py)\<close>

text \<open>
  An ID3 frame either has a \<open>text\<close> attribute (a list of strings) or has none, and then
  only \<open>str(value)\<close> is used. \<open>source.tags\<close> of an MP3 is a dictionary from frame keys
  to frames, or \<open>None\<close>. A source of another type has a dictionary whose values are lists
  or are turned into text by \<open>str\<close>.
\<close>

datatype frame = TextFrame "string list" | DataFrame string

datatype tag_value = ListValue "string list" | ScalarValue string

datatype source_file =
    MP3 "(string \<times> frame) list option"
  | OtherFile "(string \<times> tag_value) list option"

text \<open>
  The destination's Vorbis comment is mutagen's list of (key, value) pairs. Assigning
  \<open>dest[key] = v\<close> raises \<open>ValueError\<close> on a key that is not printable ASCII
  without \<open>=\<close>, deletes the pairs whose key equals \<open>key\<close> up to case, and appends one
  pair per value (a single string is one value).
\<close>

type_synonym vcomment = "(string \<times> string) list"

definition is_valid_key :: "string \<Rightarrow> bool" where
  "is_valid_key k =
     (k \<noteq> [] \<and> (\<forall>c \<in> set k. 32 \<le> (of_char c :: nat) \<and> (of_char c :: nat) \<le> 125 \<and> c \<noteq> CHR ''=''))"

definition vc_set :: "string \<Rightarrow> string list \<Rightarrow> vcomment \<Rightarrow> pyexn + vcomment" where
  "vc_set k vs d =
     (if is_valid_key k
      then Inr (filter (\<lambda>(k', v). lower k' \<noteq> lower k) d @ map (\<lambda>v. (k, v)) vs)
      else Inl (Raised ValueError ''''))"

definition vc_get :: "string \<Rightarrow> vcomment \<Rightarrow> string list" where
  "vc_get k d = map snd (filter (\<lambda>(k', v). lower k' = lower k) d)"

definition TAG_MAPPING :: "(string \<times> string) list" where
  "TAG_MAPPING =
     [(''TIT2'', ''TITLE''), (''TPE1'', ''ARTIST''), (''TPE2'', ''ALBUMARTIST''),
      (''TALB'', ''ALBUM''), (''TDRC'', ''DATE''), (''TYER'', ''DATE''),
      (''TCON'', ''GENRE''), (''TRCK'', ''TRACKNUMBER''), (''TPOS'', ''DISCNUMBER''),
      (''TPE3'', ''CONDUCTOR''), (''TPE4'', ''REMIXER''), (''TCOM'', ''COMPOSER''),
      (''TEXT'', ''LYRICIST''), (''TIT1'', ''GROUPING''), (''TIT3'', ''SUBTITLE''),
      (''TPUB'', ''PUBLISHER''), (''TCOP'', ''COPYRIGHT''), (''TENC'', ''ENCODEDBY''),
      (''TBPM'', ''BPM''), (''TMOO'', ''MOOD''), (''TSRC'', ''ISRC''),
      (''COMM'', ''COMMENT'')]"

text \<open>
  One round of the loop of \<open>_copy_id3_to_vorbis\<close>: a text frame with several values is
  copied as a list, with one value as that value, with none not at all; a frame without
  \<open>text\<close> is copied as \<open>str(value)\<close>.
\<close>

definition copy_frame :: "(string \<times> frame) list \<Rightarrow> string \<times> string \<Rightarrow> vcomment \<Rightarrow> pyexn + vcomment" where
  "copy_frame tags km d =
     (case map_of tags (fst km) of
        None \<Rightarrow> Inr d
      | Some (TextFrame ts) \<Rightarrow>
          (if length ts > 1 then vc_set (snd km) ts d
           else if length ts = 1 then vc_set (snd km) [hd ts] d
           else Inr d)
      | Some (DataFrame s) \<Rightarrow> vc_set (snd km) [s] d)"

fun copy_frames :: "(string \<times> frame) list \<Rightarrow> (string \<times> string) list \<Rightarrow> vcomment \<Rightarrow> pyexn + vcomment" where
  "copy_frames tags [] d = Inr d"
| "copy_frames tags (km # kms) d = and_then (copy_frame tags km d) (copy_frames tags kms)"

text \<open>
  \<open>source.tags[key].text[0]\<close>: \<open>AttributeError\<close> on a frame without \<open>text\<close>,
  \<open>IndexError\<close> on an empty list. The caller has checked that the key is present.
\<close>

fun first_text :: "frame \<Rightarrow> pyexn + string" where
  "first_text (TextFrame []) = Inl (Raised IndexError ''list index out of range'')"
| "first_text (TextFrame (t # ts)) = Inr t"
| "first_text (DataFrame s) = Inl (Raised AttributeError ''text'')"

text \<open>
  One of the two blocks of \<open>_parse_track_disc_numbers\<close>, for the frame \<open>key\<close> and the
  comment keys \<open>number_key\<close> and \<open>total_key\<close>. The tuple assignment \<open>num, total = ...\<close> raises
  \<open>ValueError\<close> unless the split has two parts.
\<close>

definition parse_number :: "string \<Rightarrow> string \<Rightarrow> string \<Rightarrow> (string \<times> frame) list \<Rightarrow> vcomment \<Rightarrow> pyexn + vcomment" where
  "parse_number key number_key total_key tags d =
     (case map_of tags key of
        None \<Rightarrow> Inr d
      | Some fr \<Rightarrow>
          and_then (first_text fr) (\<lambda>track.
            if CHR ''/'' \<in> set track
            then (case split_once CHR ''/'' track of
                    [num, tot] \<Rightarrow> and_then (vc_set number_key [num] d) (vc_set total_key [tot])
                  | _ \<Rightarrow> Inl (Raised ValueError ''unpack''))
            else vc_set number_key [track] d))"

definition parse_track_disc_numbers :: "(string \<times> frame) list \<Rightarrow> vcomment \<Rightarrow> pyexn + vcomment" where
  "parse_track_disc_numbers tags d =
     and_then (parse_number ''TRCK'' ''TRACKNUMBER'' ''TRACKTOTAL'' tags d)
       (parse_number ''TPOS'' ''DISCNUMBER'' ''DISCTOTAL'' tags)"

text \<open>\<open>if not source.tags: return\<close> leaves on \<open>None\<close> and on an empty dictionary.\<close>

definition copy_id3_to_vorbis :: "(string \<times> frame) list option \<Rightarrow> vcomment \<Rightarrow> pyexn + vcomment" where
  "copy_id3_to_vorbis tags d =
     (case tags of
        None \<Rightarrow> Inr d
      | Some [] \<Rightarrow> Inr d
      | Some ts \<Rightarrow> and_then (copy_frames ts TAG_MAPPING d) (parse_track_disc_numbers ts))"

fun copy_generic_item :: "string \<times> tag_value \<Rightarrow> vcomment \<Rightarrow> pyexn + vcomment" where
  "copy_generic_item (k, ListValue vs) d = vc_set (upper k) vs d"
| "copy_generic_item (k, ScalarValue s) d = vc_set (upper k) [s] d"

fun copy_generic_items :: "(string \<times> tag_value) list \<Rightarrow> vcomment \<Rightarrow> pyexn + vcomment" where
  "copy_generic_items [] d = Inr d"
| "copy_generic_items (kv # kvs) d = and_then (copy_generic_item kv d) (copy_generic_items kvs)"

definition copy_generic_tags :: "(string \<times> tag_value) list option \<Rightarrow> vcomment \<Rightarrow> pyexn + vcomment" where
  "copy_generic_tags tags d =
     (case tags of
        None \<Rightarrow> Inr d
      | Some [] \<Rightarrow> Inr d
      | Some ts \<Rightarrow> copy_generic_items ts d)"

text \<open>
  What the outside world answers to one call of \<open>copy_tags\<close>:
  \<^item> \<open>source_load\<close>: \<open>File(str(source_path))\<close> raises, or yields a value that
    \<open>if not source\<close> takes for false (\<open>None\<close>), or a source object;
  \<^item> \<open>dest_load\<close>: \<open>OggOpus(str(dest_path))\<close> raises or yields the comment;
  \<^item> \<open>album_art\<close>: what extracting and encoding the cover yields inside
    \<open>_copy_album_art\<close>: a raise, no picture, or the base64 text of the picture block;
  \<^item> \<open>save_raises\<close>: whether \<open>dest.save()\<close> raises.
\<close>

record tag_world =
  source_load :: "pyexn + source_file option"
  dest_load :: "pyexn + vcomment"
  album_art :: "pyexn + string option"
  save_raises :: "pyexn option"

text \<open>
  \<open>_copy_album_art\<close> wraps its whole body in \<open>try ... except Exception\<close> and only logs:
  it never raises, and it changes the comment only when a picture was produced.
\<close>

definition copy_album_art :: "pyexn + string option \<Rightarrow> vcomment \<Rightarrow> pyexn + vcomment" where
  "copy_album_art art d =
     (case art of
        Inl e \<Rightarrow> Inr d
      | Inr None \<Rightarrow> Inr d
      | Inr (Some b64) \<Rightarrow>
          (case vc_set ''METADATA_BLOCK_PICTURE'' [b64] d of Inl e \<Rightarrow> Inr d | Inr d' \<Rightarrow> Inr d'))"

definition save_dest :: "pyexn option \<Rightarrow> vcomment \<Rightarrow> pyexn + vcomment" where
  "save_dest sr d = (case sr of Some e \<Rightarrow> Inl e | None \<Rightarrow> Inr d)"

text \<open>
  The branch on \<open>isinstance(source, MP3)\<close> (lines 72 to 75), and the body of the
  \<open>try\<close> of \<open>copy_tags\<close>. Its value is the returned boolean together
  with the comment that \<open>dest.save()\<close> wrote, if it got that far.
\<close>

definition copy_standard_tags :: "source_file \<Rightarrow> vcomment \<Rightarrow> pyexn + vcomment" where
  "copy_standard_tags src dest =
     (case src of
        MP3 tags \<Rightarrow> copy_id3_to_vorbis tags dest
      | OtherFile tags \<Rightarrow> copy_generic_tags tags dest)"

definition copy_tags_try :: "tag_world \<Rightarrow> pyexn + (bool \<times> vcomment option)" where
  "copy_tags_try w =
     and_then (source_load w) (\<lambda>source.
       case source of
         None \<Rightarrow> Inr (False, None)
       | Some src \<Rightarrow>
           and_then (dest_load w) (\<lambda>dest.
             and_then (copy_standard_tags src dest) (\<lambda>d1.
               and_then (copy_album_art (album_art w) d1) (\<lambda>d2.
                 and_then (save_dest (save_raises w) d2) (\<lambda>d3.
                   Inr (True, Some d3))))))"

text \<open>\<open>copy_tags\<close>: the \<open>except Exception\<close> clause logs and returns \<open>False\<close>.\<close>

definition copy_tags :: "tag_world \<Rightarrow> pyexn + (bool \<times> vcomment option)" where
  "copy_tags w = (case copy_tags_try w of Inl e \<Rightarrow> Inr (False, None) | Inr r \<Rightarrow> Inr r)"

section \<open>Settings and jobs (ohopus/core/settings.py, ohopus/core/convert.py)\<close>

text \<open>
  A path is the list of its components, as \<open>pathlib.Path\<close> holds it. The settings
  record has the fields that \<open>convert.py\<close> reads; the two folders are kept as the
  paths that \<open>Path(self.settings.source_folder)\<close> and \<open>Path(self.settings.dest_folder)\<close>
  build from the stored strings.
\<close>

type_synonym path = "string list"

record settings =
  source_folder :: path
  dest_folder :: path
  engine :: string
  bitrate :: int
  vbr :: bool
  application_mode :: string
  frame_size :: rat
  complexity :: int
  skip_existing :: bool
  genre_bitrate_boost :: bool
  max_threads :: int
  replaygain_mode :: string

text \<open>
  \<open>ConversionJob\<close>. The status is the string the code stores; \<open>__init__\<close> sets
  \<open>progress = 0.0\<close>, \<open>status = "pending"\<close> and \<open>error = None\<close>. Fractions of
  progress are rationals. The job's \<open>settings\<close> attribute is the manager's own settings
  object and is read there.
\<close>

record job =
  source_path :: path
  dest_path :: path
  progress :: rat
  status :: string
  error :: "string option"

definition ConversionJob :: "path \<Rightarrow> path \<Rightarrow> job" where
  "ConversionJob src dst =
     \<lparr>source_path = src, dest_path = dst, progress = 0, status = ''pending'', error = None\<rparr>"

text \<open>\<open>path.name\<close>: the last component, empty for the empty path.\<close>

definition path_name :: "path \<Rightarrow> string" where
  "path_name p = (if p = [] then [] else last p)"

section \<open>Bitrate policy (ConversionManager._get_adjusted_bitrate)\<close>

text \<open>
  What reading the genre yields inside the \<open>try\<close>: mutagen raises; or
  \<open>audio and audio.tags\<close> is false; or the text
  \<open>str(audio.tags.get('TCON', ''))\<close>, empty when the frame is missing.
\<close>

datatype genre_read = ReadRaises pyexn | ReadFalsy | ReadGenre string

definition complex_genres :: "string list" where
  "complex_genres = [''classical'', ''edm'', ''electronic'', ''metal'', ''jazz'']"

text \<open>\<open>int(x)\<close> on a float: the fraction is cut off, towards zero.\<close>

definition py_int :: "rat \<Rightarrow> int" where
  "py_int x = (if 0 \<le> x then \<lfloor>x\<rfloor> else \<lceil>x\<rceil>)"

text \<open>
  \<open>min(int(bitrate * 1.25), 320)\<close>. The product is a binary64 float in Python; it is
  exact whenever \<open>5 * |bitrate| < 2^53\<close>, and the model computes it in the rationals.
\<close>

definition boosted :: "int \<Rightarrow> int" where
  "boosted b = min (py_int (of_int b * (5 / 4))) 320"

text \<open>
  The body of the \<open>try\<close>: \<open>Some\<close> is the value of the \<open>return\<close> inside the loop
  over \<open>complex_genres\<close>, \<open>None\<close> is falling out of the block.
\<close>

definition genre_try :: "settings \<Rightarrow> genre_read \<Rightarrow> pyexn + int option" where
  "genre_try st rd =
     (case rd of
        ReadRaises e \<Rightarrow> Inl e
      | ReadFalsy \<Rightarrow> Inr None
      | ReadGenre text \<Rightarrow>
          (if list_ex (\<lambda>g. str_contains g (lower text)) complex_genres
           then Inr (Some (boosted (bitrate st)))
           else Inr None))"

text \<open>The bare \<open>except: pass\<close> swallows every raise; then \<open>return bitrate\<close>.\<close>

definition get_adjusted_bitrate :: "settings \<Rightarrow> genre_read \<Rightarrow> pyexn + int" where
  "get_adjusted_bitrate st rd =
     (if \<not> genre_bitrate_boost st then Inr (bitrate st)
      else (case genre_try st rd of
              Inl e \<Rightarrow> Inr (bitrate st)
            | Inr (Some b) \<Rightarrow> Inr b
            | Inr None \<Rightarrow> Inr (bitrate st)))"


section \<open>Job discovery (ConversionManager._discover_files)\<close>

text \<open>
  The file system is a tree: a regular file, or a directory with named entries in the
  order \<open>scandir\<close> lists them.
\<close>

datatype fsnode = FileNode | DirNode "(string \<times> fsnode) list"

fun fs_lookup :: "fsnode \<Rightarrow> path \<Rightarrow> fsnode option" where
  "fs_lookup n [] = Some n"
| "fs_lookup FileNode (c # cs) = None"
| "fs_lookup (DirNode es) (c # cs) =
     (case map_of es c of None \<Rightarrow> None | Some n \<Rightarrow> fs_lookup n cs)"

definition ends_with :: "string \<Rightarrow> string \<Rightarrow> bool" where
  "ends_with suf s = (length suf \<le> length s \<and> drop (length s - length suf) s = suf)"

text \<open>
  \<open>rglob("*.mp3")\<close>, as pathlib's selectors run it with case-sensitive names: every
  directory of the tree in pre-order, and in each one the entries (of any kind) whose name
  ends in \<open>.mp3\<close>.
\<close>

definition mp3_entries :: "path \<Rightarrow> (string \<times> fsnode) list \<Rightarrow> path list" where
  "mp3_entries p es = map (\<lambda>e. p @ [fst e]) (filter (\<lambda>e. ends_with ''.mp3'' (fst e)) es)"

fun rglob_dir :: "path \<Rightarrow> fsnode \<Rightarrow> path list"
  and rglob_subdirs :: "path \<Rightarrow> (string \<times> fsnode) list \<Rightarrow> path list" where
  "rglob_dir p FileNode = []"
| "rglob_dir p (DirNode es) = mp3_entries p es @ rglob_subdirs p es"
| "rglob_subdirs p [] = []"
| "rglob_subdirs p (e # es) = rglob_dir (p @ [fst e]) (snd e) @ rglob_subdirs p es"

text \<open>
  \<open>source_dir.rglob\<close> starts with \<open>if not is_dir(parent_path): return iter([])\<close>: a
  root that is missing or is a regular file yields nothing and raises nothing.
\<close>

definition rglob :: "fsnode \<Rightarrow> path \<Rightarrow> path list" where
  "rglob fs start =
     (case fs_lookup fs start of
        Some (DirNode es) \<Rightarrow> rglob_dir start (DirNode es)
      | _ \<Rightarrow> [])"

text \<open>
  \<open>PurePath.suffix\<close> and \<open>with_suffix\<close> on the last component: with \<open>i\<close> the last
  index of a dot, the suffix is \<open>name[i:]\<close> if \<open>0 < i < len(name) - 1\<close> and empty
  otherwise. The paths that \<open>rglob\<close> yields below the source folder have at least one
  component after it, so the empty path (on which Python raises) does not occur here.
\<close>

definition name_suffix :: "string \<Rightarrow> string" where
  "name_suffix name =
     (if CHR ''.'' \<in> set name
      then (let i = length name - 1 - length (takeWhile (\<lambda>c. c \<noteq> CHR ''.'') (rev name))
            in if 0 < i \<and> i < length name - 1 then drop i name else [])
      else [])"

definition with_suffix :: "path \<Rightarrow> string \<Rightarrow> path" where
  "with_suffix p suf =
     (if p = [] then []
      else butlast p @ [take (length (last p) - length (name_suffix (last p))) (last p) @ suf])"

definition relative_to :: "path \<Rightarrow> path \<Rightarrow> path" where
  "relative_to p start = drop (length start) p"

definition discover_files :: "settings \<Rightarrow> fsnode \<Rightarrow> job list" where
  "discover_files st fs =
     map (\<lambda>mp3_path.
            ConversionJob mp3_path
              (dest_folder st @ with_suffix (relative_to mp3_path (source_folder st)) ''.opus''))
         (rglob fs (source_folder st))"

section \<open>The batch orchestrator (ConversionManager)\<close>

text \<open>
  The thread pool object: its worker bound and whether \<open>shutdown\<close> was called on it.
  The engines in \<open>active_engines\<close> are named by the index of the job they encode (each
  call of \<open>_process_job\<close> creates its own engine, and engines are compared by identity).
\<close>

record executor =
  max_workers :: int
  is_shutdown :: bool

record manager =
  settings :: settings
  is_running :: bool
  is_paused :: bool
  should_cancel :: bool
  jobs :: "job list"
  active_engines :: "nat list"
  executor :: "executor option"
  converted_count :: int
  skipped_count :: int
  error_count :: int

definition ConversionManager :: "settings \<Rightarrow> manager" where
  "ConversionManager st =
     \<lparr>settings = st, is_running = False, is_paused = False, should_cancel = False,
      jobs = [], active_engines = [], executor = None,
      converted_count = 0, skipped_count = 0, error_count = 0\<rparr>"

text \<open>
  What is put on \<open>message_queue\<close>: \<open>("log", {message, level})\<close>,
  \<open>("progress", {overall, current, file})\<close>, \<open>("complete", {converted, skipped, errors})\<close>
  and \<open>("error", {message})\<close>.
\<close>

datatype message =
    Log string string
  | Progress rat rat string
  | Complete int int int
  | ErrorMsg string

text \<open>Decimal digits of a natural number, for the f-strings.\<close>

fun str_of_nat :: "nat \<Rightarrow> string" where
  "str_of_nat n =
     (if n < 10 then [''0123456789'' ! n]
      else str_of_nat (n div 10) @ [''0123456789'' ! (n mod 10)])"

text \<open>True division \<open>x / y\<close>, which raises on a zero divisor.\<close>

definition py_truediv :: "rat \<Rightarrow> rat \<Rightarrow> pyexn + rat" where
  "py_truediv x y =
     (if y = 0 then Inl (Raised ZeroDivisionError ''division by zero'') else Inr (x / y))"

definition should_skip :: "settings \<Rightarrow> bool \<Rightarrow> bool" where
  "should_skip st dest_exists =
     (if \<not> skip_existing st then False
      else if dest_exists then True
      else False)"

definition calculate_overall_progress :: "manager \<Rightarrow> pyexn + rat" where
  "calculate_overall_progress m =
     (if jobs m = [] then Inr 0
      else
        (let completed = converted_count m + skipped_count m + error_count m;
             in_progress = sum_list (map progress (filter (\<lambda>j. status j = ''processing'') (jobs m)))
         in py_truediv (of_int completed + in_progress) (of_nat (length (jobs m)))))"

text \<open>
  A future of the pool: waiting in the work queue, running (with the bitrate its encoder
  was started with), cancelled before it ran, returned, or ended by a raise.
\<close>

datatype future_state = FPending | FRunning int | FCancelled | FFinished | FRaised pyexn

text \<open>
  Where the thread that called \<open>convert_batch\<close> stands: before the call; before
  discovery (line 77); at the head of the submission loop for job \<open>i\<close> (line 99); past
  the cancel test of that round, at the pause loop (line 104); at the head of the wait loop
  for the \<open>k\<close>-th future (line 135); inside \<open>future.result()\<close> (line 140); returned.
\<close>

datatype pc = Idle | Discovering | ForHead nat | PauseLoop nat | WaitHead nat | InResult nat | Returned

text \<open>
  The state of one run: the manager object, the message queue, the calling thread, the
  \<open>futures\<close> dictionary in insertion order (job index and state of its future), and the
  number of worker threads of the pool, which outlives \<open>self.executor = None\<close>.
\<close>

record state =
  mgr :: manager
  queue :: "message list"
  pc :: pc
  futures :: "(nat \<times> future_state) list"
  pool_size :: int

definition initial :: "settings \<Rightarrow> state" where
  "initial st = \<lparr>mgr = ConversionManager st, queue = [], pc = Idle, futures = [], pool_size = 0\<rparr>"

definition put :: "message \<Rightarrow> state \<Rightarrow> state" where
  "put msg s = s\<lparr>queue := queue s @ [msg]\<rparr>"

definition update_job :: "nat \<Rightarrow> (job \<Rightarrow> job) \<Rightarrow> state \<Rightarrow> state" where
  "update_job i f s = s\<lparr>mgr := (mgr s)\<lparr>jobs := (jobs (mgr s))[i := f (jobs (mgr s) ! i)]\<rparr>\<rparr>"

definition job_name :: "state \<Rightarrow> nat \<Rightarrow> string" where
  "job_name s i = path_name (source_path (jobs (mgr s) ! i))"

text \<open>
  The \<open>finally\<close> clause of \<open>convert_batch\<close> (lines 158 to 162) and its
  \<open>except Exception\<close> clause (lines 152 to 156) followed by it.
\<close>

definition batch_finally :: "state \<Rightarrow> state" where
  "batch_finally s = s\<lparr>mgr := (mgr s)\<lparr>is_running := False, executor := None\<rparr>, pc := Returned\<rparr>"

definition batch_failed :: "pyexn \<Rightarrow> state \<Rightarrow> state" where
  "batch_failed e s =
     batch_finally (put (ErrorMsg (''Batch conversion failed: '' @ exn_str e)) s)"

text \<open>Lines 64 to 75: the entry of \<open>convert_batch\<close>. No statement of it raises.\<close>

definition batch_enter :: "manager \<Rightarrow> message list \<Rightarrow> pyexn + manager \<times> message list" where
  "batch_enter m q =
     Inr (m\<lparr>is_running := True, should_cancel := False,
             converted_count := 0, skipped_count := 0, error_count := 0\<rparr>,
          q @ [Log ''Scanning for MP3 files...'' ''info''])"

text \<open>
  Lines 77 to 94: discovery, the return on an empty job list, and the creation of the
  pool, whose constructor raises \<open>ValueError\<close> unless \<open>max_workers > 0\<close>.
\<close>

definition batch_discover :: "fsnode \<Rightarrow> state \<Rightarrow> state" where
  "batch_discover fs s =
     (let found = discover_files (settings (mgr s)) fs;
          s1 = s\<lparr>mgr := (mgr s)\<lparr>jobs := found\<rparr>\<rparr>;
          total_jobs = length found
      in if total_jobs = 0
         then batch_finally (put (Log ''No MP3 files found in source directory'' ''warning'') s1)
         else
           (let s2 = put (Log (''Found '' @ str_of_nat total_jobs @ '' MP3 files to convert'') ''info'') s1;
                workers = min (max_threads (settings (mgr s))) (int total_jobs)
            in if workers \<le> 0
               then batch_failed (Raised ValueError ''max_workers must be greater than 0'') s2
               else s2\<lparr>mgr := (mgr s2)\<lparr>executor := Some \<lparr>max_workers = workers, is_shutdown = False\<rparr>\<rparr>,
                       pool_size := workers, pc := ForHead 0\<rparr>))"

text \<open>
  Lines 108 to 132, for job \<open>i\<close>: the skip branch, or \<open>executor.submit\<close> (which raises
  \<open>RuntimeError\<close> after \<open>shutdown\<close>) and the progress message.
\<close>

definition batch_dispatch :: "nat \<Rightarrow> bool \<Rightarrow> state \<Rightarrow> state" where
  "batch_dispatch i dest_exists s =
     (if should_skip (settings (mgr s)) dest_exists
      then
        (let s1 = s\<lparr>mgr := (mgr s)\<lparr>skipped_count := skipped_count (mgr s) + 1\<rparr>\<rparr>;
             s2 = update_job i (\<lambda>j. j\<lparr>status := ''skipped''\<rparr>) s1
         in (put (Log (''Skipped: '' @ job_name s i) ''info'') s2)\<lparr>pc := ForHead (Suc i)\<rparr>)
      else
        (case executor (mgr s) of
           None \<Rightarrow> batch_failed (Raised AttributeError ''submit'') s
         | Some ex \<Rightarrow>
             if is_shutdown ex
             then batch_failed (Raised RuntimeError ''cannot schedule new futures after shutdown'') s
             else
               (let s1 = s\<lparr>futures := futures s @ [(i, FPending)]\<rparr>;
                    completed = converted_count (mgr s) + skipped_count (mgr s) + error_count (mgr s)
                in case py_truediv (of_int completed) (of_nat (length (jobs (mgr s)))) of
                     Inl e \<Rightarrow> batch_failed e s1
                   | Inr overall \<Rightarrow> (put (Progress overall 0 (job_name s i)) s1)\<lparr>pc := ForHead (Suc i)\<rparr>)))"

text \<open>Lines 146 to 150, then the \<open>finally\<close> clause.\<close>

definition batch_complete :: "state \<Rightarrow> state" where
  "batch_complete s =
     batch_finally
       (put (Complete (converted_count (mgr s)) (skipped_count (mgr s)) (error_count (mgr s))) s)"

text \<open>
  \<open>_process_job\<close>. Its \<open>except Exception\<close> clause (lines 254 to 263) and the end of
  its success path (lines 246 to 252):
\<close>

definition job_except :: "nat \<Rightarrow> pyexn \<Rightarrow> state \<Rightarrow> state" where
  "job_except j e s =
     (let s1 = s\<lparr>mgr := (mgr s)\<lparr>error_count := error_count (mgr s) + 1\<rparr>\<rparr>;
          s2 = update_job j (\<lambda>x. x\<lparr>status := ''error'', error := Some (exn_str e)\<rparr>) s1
      in put (Log (''Failed: '' @ job_name s j @ '' - '' @ exn_str e) ''error'') s2)"

definition job_success :: "nat \<Rightarrow> state \<Rightarrow> state" where
  "job_success j s =
     (let s1 = s\<lparr>mgr := (mgr s)\<lparr>converted_count := converted_count (mgr s) + 1\<rparr>\<rparr>;
          s2 = update_job j (\<lambda>x. x\<lparr>status := ''completed''\<rparr>) s1
      in put (Log (''Completed: '' @ path_name (dest_path (jobs (mgr s) ! j))) ''success'') s2)"

text \<open>
  The \<open>finally\<close> clause (lines 265 to 267) once \<open>engine\<close> is bound: the engine leaves
  \<open>active_engines\<close> and the call returns, so the future at position \<open>k\<close> is done.
\<close>

definition job_finally :: "nat \<Rightarrow> nat \<Rightarrow> state \<Rightarrow> state" where
  "job_finally k j s =
     s\<lparr>mgr := (mgr s)\<lparr>active_engines := remove1 j (active_engines (mgr s))\<rparr>,
       futures := (futures s)[k := (j, FFinished)]\<rparr>"

text \<open>
  The same clause when \<open>engine\<close> was never assigned: reading it raises
  \<open>UnboundLocalError\<close>, which leaves \<open>_process_job\<close> and becomes the future's
  exception.
\<close>

definition job_finally_unbound :: "nat \<Rightarrow> nat \<Rightarrow> state \<Rightarrow> state" where
  "job_finally_unbound k j s =
     s\<lparr>futures := (futures s)[k := (j, FRaised (Raised UnboundLocalError
          ''local variable engine referenced before assignment''))]\<rparr>"

text \<open>
  The start of \<open>_process_job\<close> for the future at position \<open>k\<close> (lines 199 to 212):
  the log message, \<open>mkdir\<close> (which may raise, before \<open>engine\<close> is assigned), the
  engine, the bitrate, and the entry into \<open>engine.encode\<close>.
\<close>

definition job_start :: "nat \<Rightarrow> nat \<Rightarrow> pyexn option \<Rightarrow> genre_read \<Rightarrow> state \<Rightarrow> state" where
  "job_start k j mkdir_raises rd s =
     (let s1 = put (Log (''Converting: '' @ job_name s j) ''info'') s
      in case mkdir_raises of
           Some e \<Rightarrow> job_finally_unbound k j (job_except j e s1)
         | None \<Rightarrow>
             (let s2 = s1\<lparr>mgr := (mgr s1)\<lparr>active_engines := active_engines (mgr s1) @ [j]\<rparr>\<rparr>
              in case get_adjusted_bitrate (settings (mgr s)) rd of
                   Inl e \<Rightarrow> job_finally k j (job_except j e s2)
                 | Inr b \<Rightarrow> s2\<lparr>futures := (futures s2)[k := (j, FRunning b)]\<rparr>))"

text \<open>
  \<open>progress_callback\<close> (lines 215 to 221). If computing the overall progress raised,
  the raise would leave the callback before the message is put.
\<close>

definition job_progress :: "nat \<Rightarrow> rat \<Rightarrow> state \<Rightarrow> state" where
  "job_progress j p s =
     (let s1 = update_job j (\<lambda>x. x\<lparr>progress := p\<rparr>) s
      in case calculate_overall_progress (mgr s1) of
           Inl e \<Rightarrow> s1
         | Inr overall \<Rightarrow> put (Progress overall p (job_name s j)) s1)"

text \<open>
  The rest of \<open>_process_job\<close> once \<open>engine.encode\<close> has returned or raised (lines 235
  to 267). \<open>copy_tags\<close> is called on success and its value is dropped; a raise of it
  would be caught like any other. \<open>_apply_replaygain\<close> runs an external tool inside its
  own \<open>try ... except Exception\<close> and changes nothing of the manager.
\<close>

definition job_finish :: "nat \<Rightarrow> nat \<Rightarrow> pyexn + bool \<Rightarrow> tag_world \<Rightarrow> state \<Rightarrow> state" where
  "job_finish k j outcome tw s =
     (case outcome of
        Inl e \<Rightarrow> job_finally k j (job_except j e s)
      | Inr False \<Rightarrow> job_finally k j (job_except j (Raised PlainException ''Encoding failed'') s)
      | Inr True \<Rightarrow>
          (case copy_tags tw of
             Inl e \<Rightarrow> job_finally k j (job_except j e s)
           | Inr r \<Rightarrow> job_finally k j (job_success j s)))"

text \<open>The work queue is first in, first out: a worker takes the first waiting future.\<close>

fun first_pending :: "(nat \<times> future_state) list \<Rightarrow> nat option" where
  "first_pending [] = None"
| "first_pending (f # fs) =
     (if snd f = FPending then Some 0 else map_option Suc (first_pending fs))"

fun is_running_future :: "nat \<times> future_state \<Rightarrow> bool" where
  "is_running_future (j, FRunning b) = True"
| "is_running_future (j, other) = False"

fun running_position :: "nat \<Rightarrow> (nat \<times> future_state) list \<Rightarrow> nat option" where
  "running_position j [] = None"
| "running_position j (f # fs) =
     (if fst f = j \<and> is_running_future f then Some 0 else map_option Suc (running_position j fs))"

text \<open>\<open>cancel()\<close>, \<open>pause()\<close> and \<open>resume()\<close>. Cancelling an engine ends its external
  process; the encoder's result then arrives like any other.\<close>

definition cancel :: "manager \<Rightarrow> manager" where
  "cancel m =
     m\<lparr>should_cancel := True,
       executor := (case executor m of None \<Rightarrow> None | Some ex \<Rightarrow> Some (ex\<lparr>is_shutdown := True\<rparr>))\<rparr>"

definition pause :: "manager \<Rightarrow> manager" where
  "pause m = m\<lparr>is_paused := True\<rparr>"

definition resume :: "manager \<Rightarrow> manager" where
  "resume m = m\<lparr>is_paused := False\<rparr>"

text \<open>
  The steps of a run. Each label is one uninterrupted piece of one thread:
  \<^item> the calling thread: \<open>Call\<close> (entry), \<open>Discover fs\<close> (discovery on the file
    system \<open>fs\<close>), \<open>LoopCheck\<close> (the head of the submission loop with its cancel test),
    \<open>Dispatch ex\<close> (one test of the pause loop, which sleeps or goes on to skip or
    submit the job; \<open>ex\<close> answers \<open>dest_path.exists()\<close>), \<open>WaitCheck\<close> (the head of
    the wait loop with its cancel test, and the completion message after the last
    future), \<open>Join\<close> (the return of \<open>future.result()\<close>, possible only once that
    future is done);
  \<^item> a worker thread: \<open>WorkerStart\<close> (takes the first waiting future while fewer than
    \<open>pool_size\<close> are running), \<open>WorkerProgress\<close> (the encoder reports progress),
    \<open>WorkerFinish\<close> (the encoder ends);
  \<^item> the user's thread: \<open>Pause\<close>, \<open>Resume\<close>, \<open>Cancel\<close>.
  A label that the state does not allow yields \<open>None\<close>.
\<close>

datatype label =
    Call
  | Discover fsnode
  | LoopCheck
  | Dispatch bool
  | WaitCheck
  | Join
  | WorkerStart "pyexn option" genre_read
  | WorkerProgress nat rat
  | WorkerFinish nat "pyexn + bool" tag_world
  | Pause
  | Resume
  | Cancel

fun step :: "label \<Rightarrow> state \<Rightarrow> state option" where
  "step Call s =
     (case pc s of
        Idle \<Rightarrow>
          (case batch_enter (mgr s) (queue s) of
             Inl e \<Rightarrow> Some (batch_failed e s)
           | Inr (m, q) \<Rightarrow> Some (s\<lparr>mgr := m, queue := q, pc := Discovering\<rparr>))
      | _ \<Rightarrow> None)"
| "step (Discover fs) s =
     (case pc s of
        Discovering \<Rightarrow> Some (batch_discover fs s)
      | _ \<Rightarrow> None)"
| "step LoopCheck s =
     (case pc s of
        ForHead i \<Rightarrow>
          (if length (jobs (mgr s)) \<le> i then Some (s\<lparr>pc := WaitHead 0\<rparr>)
           else if should_cancel (mgr s) then Some (s\<lparr>pc := WaitHead 0\<rparr>)
           else Some (s\<lparr>pc := PauseLoop i\<rparr>))
      | _ \<Rightarrow> None)"
| "step (Dispatch dest_exists) s =
     (case pc s of
        PauseLoop i \<Rightarrow>
          (if is_paused (mgr s) \<and> \<not> should_cancel (mgr s) then Some s
           else Some (batch_dispatch i dest_exists s))
      | _ \<Rightarrow> None)"
| "step WaitCheck s =
     (case pc s of
        WaitHead k \<Rightarrow>
          (if length (futures s) \<le> k then Some (batch_complete s)
           else if should_cancel (mgr s)
           then Some (s\<lparr>futures := (futures s)[k := (fst (futures s ! k),
                          if snd (futures s ! k) = FPending then FCancelled else snd (futures s ! k))],
                        pc := WaitHead (Suc k)\<rparr>)
           else Some (s\<lparr>pc := InResult k\<rparr>))
      | _ \<Rightarrow> None)"
| "step Join s =
     (case pc s of
        InResult k \<Rightarrow>
          (case snd (futures s ! k) of
             FFinished \<Rightarrow> Some (s\<lparr>pc := WaitHead (Suc k)\<rparr>)
           | FRaised e \<Rightarrow>
               Some (s\<lparr>mgr := (mgr s)\<lparr>error_count := error_count (mgr s) + 1\<rparr>, pc := WaitHead (Suc k)\<rparr>)
           | FCancelled \<Rightarrow>
               Some (s\<lparr>mgr := (mgr s)\<lparr>error_count := error_count (mgr s) + 1\<rparr>, pc := WaitHead (Suc k)\<rparr>)
           | _ \<Rightarrow> None)
      | _ \<Rightarrow> None)"
| "step (WorkerStart mkdir_raises rd) s =
     (case first_pending (futures s) of
        None \<Rightarrow> None
      | Some k \<Rightarrow>
          (if int (length (filter is_running_future (futures s))) < pool_size s
           then Some (job_start k (fst (futures s ! k)) mkdir_raises rd s)
           else None))"
| "step (WorkerProgress j p) s =
     (case running_position j (futures s) of
        None \<Rightarrow> None
      | Some k \<Rightarrow> Some (job_progress j p s))"
| "step (WorkerFinish j outcome tw) s =
     (case running_position j (futures s) of
        None \<Rightarrow> None
      | Some k \<Rightarrow> Some (job_finish k j outcome tw s))"
| "step Pause s = Some (s\<lparr>mgr := pause (mgr s)\<rparr>)"
| "step Resume s = Some (s\<lparr>mgr := resume (mgr s)\<rparr>)"
| "step Cancel s = Some (s\<lparr>mgr := cancel (mgr s)\<rparr>)"

text \<open>A schedule is a list of labels; it runs while every label is allowed.\<close>

fun exec :: "label list \<Rightarrow> state \<Rightarrow> state option" where
  "exec [] s = Some s"
| "exec (l # ls) s = (case step l s of None \<Rightarrow> None | Some s' \<Rightarrow> exec ls s')"

section \<open>Notions used in the statements\<close>

text \<open>
  A track or disc frame that \<open>_parse_track_disc_numbers\<close> can read: absent, or a text
  frame with at least one value.
\<close>

definition number_frame_ok :: "string \<Rightarrow> (string \<times> frame) list \<Rightarrow> bool" where
  "number_frame_ok key tags =
     (case map_of tags key of
        None \<Rightarrow> True
      | Some fr \<Rightarrow> (case first_text fr of Inl e \<Rightarrow> False | Inr t \<Rightarrow> True))"

text \<open>
  The defaults of the \<open>Settings\<close> dataclass (the empty folder strings give the empty
  path), and a settings object with both folders chosen, used at concrete inputs.
\<close>

definition default_settings :: settings where
  "default_settings =
     \<lparr>source_folder = [], dest_folder = [], engine = ''ffmpeg'', bitrate = 160, vbr = True,
      application_mode = ''audio'', frame_size = 20, complexity = 10,
      skip_existing = True, genre_bitrate_boost = True,
      max_threads = 4, replaygain_mode = ''off''\<rparr>"

definition music_settings :: settings where
  "music_settings = default_settings\<lparr>source_folder := [''music''], dest_folder := [''out'']\<rparr>"

text \<open>
  File systems used at concrete inputs: one track; two tracks, one of them in a
  subdirectory beside a text file; a source folder without any track.
\<close>

definition fs_one :: fsnode where
  "fs_one = DirNode [(''music'', DirNode [(''a.mp3'', FileNode)])]"

definition fs_two :: fsnode where
  "fs_two =
     DirNode [(''music'', DirNode [(''a.mp3'', FileNode),
                                   (''sub'', DirNode [(''b.mp3'', FileNode), (''c.txt'', FileNode)])])]"

definition fs_no_mp3 :: fsnode where
  "fs_no_mp3 = DirNode [(''music'', DirNode [(''notes.txt'', FileNode)])]"


text \<open>A world in which \<open>copy_tags\<close> finds nothing to read.\<close>

definition no_tags :: tag_world where
  "no_tags = \<lparr>source_load = Inr None, dest_load = Inr [], album_art = Inr None, save_raises = None\<rparr>"

text \<open>
  No job has the status \<open>processing\<close>.
\<close>

definition statuses_ok :: "state \<Rightarrow> bool" where
  "statuses_ok s = (\<forall>j \<in> set (jobs (mgr s)). status j \<noteq> ''processing'')"

text \<open>
  A run after \<open>cancel()\<close>: the flag is set, the call of \<open>convert_batch\<close> has begun,
  and if the calling thread stands at the pause loop then the pool is shut down. The jobs
  submitted so far are the job indices of the futures.
\<close>

definition cancelled :: "state \<Rightarrow> bool" where
  "cancelled s =
     (should_cancel (mgr s) \<and> pc s \<noteq> Idle \<and>
      (case pc s of
         PauseLoop i \<Rightarrow> (case executor (mgr s) of None \<Rightarrow> True | Some ex \<Rightarrow> is_shutdown ex)
       | _ \<Rightarrow> True))"

definition submitted :: "state \<Rightarrow> nat list" where
  "submitted s = map fst (futures s)"

text \<open>
  Bookkeeping of a run without cancellation in which every \<open>mkdir\<close> succeeds (the
  \<open>calm\<close> labels): the three counters; the number of jobs; the \<open>complete\<close> messages
  on the queue; the futures that have returned; how far the calling thread has come
  (\<open>placed\<close>: every job before the loop index is skipped or submitted, every future
  before the wait index has returned); and the invariant \<open>accounted\<close> that ties them
  together.
\<close>

fun calm :: "label \<Rightarrow> bool" where
  "calm Cancel = False"
| "calm (WorkerStart (Some e) rd) = False"
| "calm l = True"

fun is_complete :: "message \<Rightarrow> bool" where
  "is_complete (Complete c k e) = True"
| "is_complete m = False"

definition completes :: "state \<Rightarrow> message list" where
  "completes s = filter is_complete (queue s)"

definition counted :: "state \<Rightarrow> int" where
  "counted s = converted_count (mgr s) + skipped_count (mgr s) + error_count (mgr s)"

definition job_total :: "state \<Rightarrow> nat" where
  "job_total s = length (jobs (mgr s))"

definition finished_count :: "(nat \<times> future_state) list \<Rightarrow> nat" where
  "finished_count fs = length (filter (\<lambda>f. snd f = FFinished) fs)"

fun sound_future :: "future_state \<Rightarrow> bool" where
  "sound_future FCancelled = False"
| "sound_future (FRaised e) = False"
| "sound_future x = True"

fun placed :: "pc \<Rightarrow> int \<Rightarrow> (nat \<times> future_state) list \<Rightarrow> nat \<Rightarrow> bool" where
  "placed Idle sk fs n = (fs = [] \<and> sk = 0)"
| "placed Discovering sk fs n = (fs = [] \<and> sk = 0)"
| "placed (ForHead i) sk fs n = (sk + int (length fs) = int i \<and> i \<le> n)"
| "placed (PauseLoop i) sk fs n = (sk + int (length fs) = int i \<and> i < n)"
| "placed (WaitHead k) sk fs n =
     (sk + int (length fs) = int n \<and> k \<le> length fs \<and> (\<forall>m<k. snd (fs ! m) = FFinished))"
| "placed (InResult k) sk fs n =
     (sk + int (length fs) = int n \<and> k < length fs \<and> (\<forall>m<k. snd (fs ! m) = FFinished))"
| "placed Returned sk fs n = (sk + int (length fs) \<le> int n)"

definition accounted :: "state \<Rightarrow> bool" where
  "accounted s =
     (\<not> should_cancel (mgr s) \<and>
      (\<forall>f \<in> set (futures s). sound_future (snd f)) \<and>
      converted_count (mgr s) + error_count (mgr s) = int (finished_count (futures s)) \<and>
      placed (pc s) (skipped_count (mgr s)) (futures s) (job_total s) \<and>
      (\<forall>m \<in> set (completes s).
         pc s = Returned \<and>
         m = Complete (converted_count (mgr s)) (skipped_count (mgr s)) (error_count (mgr s)) \<and>
         (\<forall>f \<in> set (futures s). snd f = FFinished) \<and>
         skipped_count (mgr s) + int (length (futures s)) = int (job_total s)))"

section \<open>Tag transcription: track and disc numbers\<close>

lemma lower_consts:
  "lower ''TRACKNUMBER'' = ''tracknumber''" "lower ''TRACKTOTAL'' = ''tracktotal''"
  "lower ''DISCNUMBER'' = ''discnumber''" "lower ''DISCTOTAL'' = ''disctotal''"
  by (simp_all add: lower_def lower_char_def)

lemma valid_consts:
  "is_valid_key ''TRACKNUMBER''" "is_valid_key ''TRACKTOTAL''"
  "is_valid_key ''DISCNUMBER''" "is_valid_key ''DISCTOTAL''"
  by (simp_all add: is_valid_key_def)

lemma mapping_valid: "\<forall>km \<in> set TAG_MAPPING. is_valid_key (snd km)"
  by (simp add: TAG_MAPPING_def is_valid_key_def)

lemma mapping_not_total:
  "\<forall>km \<in> set TAG_MAPPING. lower ''TRACKTOTAL'' \<noteq> lower (snd km)"
  "\<forall>km \<in> set TAG_MAPPING. lower ''DISCTOTAL'' \<noteq> lower (snd km)"
  by (simp_all add: TAG_MAPPING_def lower_def lower_char_def)

lemma vc_get_set_same: "vc_set k vs d = Inr d' \<Longrightarrow> vc_get k d' = vs"
  by (auto simp: vc_set_def vc_get_def filter_empty_conv comp_def split: if_splits)

lemma vc_get_set_other:
  assumes "lower k' \<noteq> lower k" and "vc_set k vs d = Inr d'"
  shows "vc_get k' d' = vc_get k' d"
proof -
  from assms(2) have d': "d' = filter (\<lambda>(a, v). lower a \<noteq> lower k) d @ map (\<lambda>v. (k, v)) vs"
    by (auto simp: vc_set_def split: if_splits)
  have "filter (\<lambda>(a, v). lower a = lower k') (filter (\<lambda>(a, v). lower a \<noteq> lower k) d)
        = filter (\<lambda>(a, v). lower a = lower k') d"
    using assms(1) by (induction d) auto
  moreover have "filter (\<lambda>(a, v). lower a = lower k') (map (\<lambda>v. (k, v)) vs) = []"
    using assms(1) by (induction vs) auto
  ultimately show ?thesis by (simp add: d' vc_get_def)
qed

lemma vc_set_ok: "is_valid_key k \<Longrightarrow> \<exists>d'. vc_set k vs d = Inr d'"
  by (simp add: vc_set_def)

lemma copy_frame_ok: "is_valid_key (snd km) \<Longrightarrow> \<exists>d'. copy_frame tags km d = Inr d'"
  by (auto simp: copy_frame_def vc_set_def split: option.splits frame.splits)

lemma copy_frame_other:
  "lower k \<noteq> lower (snd km) \<Longrightarrow> copy_frame tags km d = Inr d' \<Longrightarrow> vc_get k d' = vc_get k d"
  by (auto simp: copy_frame_def split: option.splits frame.splits if_splits
           dest: vc_get_set_other)

lemma copy_frames_ok:
  "\<forall>km \<in> set kms. is_valid_key (snd km) \<Longrightarrow> \<exists>d'. copy_frames tags kms d = Inr d'"
proof (induction kms arbitrary: d)
  case Nil
  show ?case by simp
next
  case (Cons km kms)
  then obtain d1 where "copy_frame tags km d = Inr d1"
    using copy_frame_ok [of km tags d] by auto
  with Cons show ?case by simp
qed

lemma copy_frames_other:
  "\<forall>km \<in> set kms. lower k \<noteq> lower (snd km) \<Longrightarrow> copy_frames tags kms d = Inr d'
     \<Longrightarrow> vc_get k d' = vc_get k d"
proof (induction kms arbitrary: d)
  case Nil
  then show ?case by simp
next
  case (Cons km kms)
  from Cons.prems(2) obtain d1 where d1: "copy_frame tags km d = Inr d1"
    and rest: "copy_frames tags kms d1 = Inr d'"
    by (cases "copy_frame tags km d") auto
  have "vc_get k d1 = vc_get k d"
    using Cons.prems(1) d1 by (auto dest: copy_frame_other)
  moreover have "vc_get k d' = vc_get k d1"
    using Cons.IH [OF _ rest] Cons.prems(1) by simp
  ultimately show ?case by simp
qed

lemma split_at_first:
  assumes "t = n @ ''/'' @ m" and "CHR ''/'' \<notin> set n"
  shows "split_once CHR ''/'' t = [n, m]"
proof -
  have "takeWhile (\<lambda>c. c \<noteq> CHR ''/'') (n @ CHR ''/'' # m) = n"
    using assms(2) by (subst takeWhile_append2) auto
  moreover have "dropWhile (\<lambda>c. c \<noteq> CHR ''/'') (n @ CHR ''/'' # m) = CHR ''/'' # m"
    using assms(2) by (subst dropWhile_append2) auto
  ultimately show ?thesis using assms(1) by (simp add: split_once_def)
qed

lemma split_once_two: "CHR ''/'' \<in> set t \<Longrightarrow> \<exists>a b. split_once CHR ''/'' t = [a, b]"
  by (simp add: split_once_def)

lemma parse_number_spec:
  assumes ok: "number_frame_ok key tags"
    and vn: "is_valid_key nk" and vt: "is_valid_key tk" and ne: "lower nk \<noteq> lower tk"
  shows "\<exists>d'. parse_number key nk tk tags d = Inr d' \<and>
           (\<forall>k. lower k \<noteq> lower nk \<and> lower k \<noteq> lower tk \<longrightarrow> vc_get k d' = vc_get k d) \<and>
           (\<forall>t ts. map_of tags key = Some (TextFrame (t # ts)) \<longrightarrow>
              (\<forall>n m. t = n @ ''/'' @ m \<and> CHR ''/'' \<notin> set n \<longrightarrow>
                 vc_get nk d' = [n] \<and> vc_get tk d' = [m]) \<and>
              (CHR ''/'' \<notin> set t \<longrightarrow> vc_get nk d' = [t] \<and> vc_get tk d' = vc_get tk d))"
proof (cases "map_of tags key")
  case None
  then show ?thesis by (simp add: parse_number_def)
next
  case (Some fr)
  with ok obtain t ts where fr: "fr = TextFrame (t # ts)"
    by (cases fr rule: first_text.cases) (auto simp: number_frame_ok_def)
  show ?thesis
  proof (cases "CHR ''/'' \<in> set t")
    case True
    then obtain a b where ab: "split_once CHR ''/'' t = [a, b]"
      using split_once_two by blast
    obtain d1 where d1: "vc_set nk [a] d = Inr d1" using vc_set_ok [OF vn] by blast
    obtain d2 where d2: "vc_set tk [b] d1 = Inr d2" using vc_set_ok [OF vt] by blast
    have res: "parse_number key nk tk tags d = Inr d2"
      using Some fr True ab d1 d2 by (simp add: parse_number_def)
    have g_n: "vc_get nk d2 = [a]"
      using vc_get_set_other [OF ne d2] vc_get_set_same [OF d1] by simp
    have g_t: "vc_get tk d2 = [b]" using vc_get_set_same [OF d2] .
    have other: "\<forall>k. lower k \<noteq> lower nk \<and> lower k \<noteq> lower tk \<longrightarrow> vc_get k d2 = vc_get k d"
      using vc_get_set_other [OF _ d2] vc_get_set_other [OF _ d1] by simp
    have "\<forall>n m. t = n @ ''/'' @ m \<and> CHR ''/'' \<notin> set n \<longrightarrow> a = n \<and> b = m"
      using ab split_at_first by fastforce
    with res g_n g_t other True Some fr show ?thesis by auto
  next
    case False
    obtain d1 where d1: "vc_set nk [t] d = Inr d1" using vc_set_ok [OF vn] by blast
    have res: "parse_number key nk tk tags d = Inr d1"
      using Some fr False d1 by (simp add: parse_number_def)
    have "vc_get nk d1 = [t]" using vc_get_set_same [OF d1] .
    moreover have "\<forall>k. lower k \<noteq> lower nk \<longrightarrow> vc_get k d1 = vc_get k d"
      using vc_get_set_other [OF _ d1] by simp
    ultimately show ?thesis using res False Some fr ne by auto
  qed
qed

text \<open>
  Claim C8. For an MP3 source with tags whose track and disc frames are readable, tag
  transcription (\<open>_copy_id3_to_vorbis\<close>, which ends with
  \<open>_parse_track_disc_numbers\<close>) succeeds, and: if the first text of \<open>TRCK\<close> is
  \<open>n/m\<close> with no slash in \<open>n\<close>, the destination gets \<open>TRACKNUMBER = n\<close> and
  \<open>TRACKTOTAL = m\<close>; if it has no slash, the destination gets \<open>TRACKNUMBER\<close> equal to
  the text and \<open>TRACKTOTAL\<close> is left as it was; the same for \<open>TPOS\<close> with
  \<open>DISCNUMBER\<close> and \<open>DISCTOTAL\<close>.
\<close>

theorem track_disc_numbers_split:
  assumes ne: "tags \<noteq> []"
    and trck: "number_frame_ok ''TRCK'' tags"
    and tpos: "number_frame_ok ''TPOS'' tags"
  shows "\<exists>d'. copy_id3_to_vorbis (Some tags) d = Inr d' \<and>
           (\<forall>t ts. map_of tags ''TRCK'' = Some (TextFrame (t # ts)) \<longrightarrow>
              (\<forall>n m. t = n @ ''/'' @ m \<and> CHR ''/'' \<notin> set n \<longrightarrow>
                 vc_get ''TRACKNUMBER'' d' = [n] \<and> vc_get ''TRACKTOTAL'' d' = [m]) \<and>
              (CHR ''/'' \<notin> set t \<longrightarrow>
                 vc_get ''TRACKNUMBER'' d' = [t] \<and> vc_get ''TRACKTOTAL'' d' = vc_get ''TRACKTOTAL'' d)) \<and>
           (\<forall>t ts. map_of tags ''TPOS'' = Some (TextFrame (t # ts)) \<longrightarrow>
              (\<forall>n m. t = n @ ''/'' @ m \<and> CHR ''/'' \<notin> set n \<longrightarrow>
                 vc_get ''DISCNUMBER'' d' = [n] \<and> vc_get ''DISCTOTAL'' d' = [m]) \<and>
              (CHR ''/'' \<notin> set t \<longrightarrow>
                 vc_get ''DISCNUMBER'' d' = [t] \<and> vc_get ''DISCTOTAL'' d' = vc_get ''DISCTOTAL'' d))"
proof -
  obtain d1 where d1: "copy_frames tags TAG_MAPPING d = Inr d1"
    using copy_frames_ok [OF mapping_valid] by blast
  have tt1: "vc_get ''TRACKTOTAL'' d1 = vc_get ''TRACKTOTAL'' d"
    using copy_frames_other [OF mapping_not_total(1) d1] .
  have dt1: "vc_get ''DISCTOTAL'' d1 = vc_get ''DISCTOTAL'' d"
    using copy_frames_other [OF mapping_not_total(2) d1] .
  have ne_t: "lower ''TRACKNUMBER'' \<noteq> lower ''TRACKTOTAL''"
    and ne_d: "lower ''DISCNUMBER'' \<noteq> lower ''DISCTOTAL''"
    by (simp_all add: lower_consts)
  obtain d2 where d2: "parse_number ''TRCK'' ''TRACKNUMBER'' ''TRACKTOTAL'' tags d1 = Inr d2"
    and keep2: "\<forall>k. lower k \<noteq> lower ''TRACKNUMBER'' \<and> lower k \<noteq> lower ''TRACKTOTAL'' \<longrightarrow>
                  vc_get k d2 = vc_get k d1"
    and track: "\<forall>t ts. map_of tags ''TRCK'' = Some (TextFrame (t # ts)) \<longrightarrow>
              (\<forall>n m. t = n @ ''/'' @ m \<and> CHR ''/'' \<notin> set n \<longrightarrow>
                 vc_get ''TRACKNUMBER'' d2 = [n] \<and> vc_get ''TRACKTOTAL'' d2 = [m]) \<and>
              (CHR ''/'' \<notin> set t \<longrightarrow>
                 vc_get ''TRACKNUMBER'' d2 = [t] \<and> vc_get ''TRACKTOTAL'' d2 = vc_get ''TRACKTOTAL'' d1)"
    using parse_number_spec [OF trck valid_consts(1) valid_consts(2) ne_t, of d1] by blast
  obtain d3 where d3: "parse_number ''TPOS'' ''DISCNUMBER'' ''DISCTOTAL'' tags d2 = Inr d3"
    and keep3: "\<forall>k. lower k \<noteq> lower ''DISCNUMBER'' \<and> lower k \<noteq> lower ''DISCTOTAL'' \<longrightarrow>
                  vc_get k d3 = vc_get k d2"
    and disc: "\<forall>t ts. map_of tags ''TPOS'' = Some (TextFrame (t # ts)) \<longrightarrow>
              (\<forall>n m. t = n @ ''/'' @ m \<and> CHR ''/'' \<notin> set n \<longrightarrow>
                 vc_get ''DISCNUMBER'' d3 = [n] \<and> vc_get ''DISCTOTAL'' d3 = [m]) \<and>
              (CHR ''/'' \<notin> set t \<longrightarrow>
                 vc_get ''DISCNUMBER'' d3 = [t] \<and> vc_get ''DISCTOTAL'' d3 = vc_get ''DISCTOTAL'' d2)"
    using parse_number_spec [OF tpos valid_consts(3) valid_consts(4) ne_d, of d2] by blast
  have res: "copy_id3_to_vorbis (Some tags) d = Inr d3"
    using ne d1 d2 d3
    by (cases tags) (simp_all add: copy_id3_to_vorbis_def parse_track_disc_numbers_def)
  have k_tn: "vc_get ''TRACKNUMBER'' d3 = vc_get ''TRACKNUMBER'' d2"
    and k_tt: "vc_get ''TRACKTOTAL'' d3 = vc_get ''TRACKTOTAL'' d2"
    using keep3 by (simp_all add: lower_consts)
  have k_dt: "vc_get ''DISCTOTAL'' d2 = vc_get ''DISCTOTAL'' d1"
    using keep2 by (simp add: lower_consts)
  have track3: "\<forall>t ts. map_of tags ''TRCK'' = Some (TextFrame (t # ts)) \<longrightarrow>
              (\<forall>n m. t = n @ ''/'' @ m \<and> CHR ''/'' \<notin> set n \<longrightarrow>
                 vc_get ''TRACKNUMBER'' d3 = [n] \<and> vc_get ''TRACKTOTAL'' d3 = [m]) \<and>
              (CHR ''/'' \<notin> set t \<longrightarrow>
                 vc_get ''TRACKNUMBER'' d3 = [t] \<and> vc_get ''TRACKTOTAL'' d3 = vc_get ''TRACKTOTAL'' d)"
    using track by (simp only: k_tn k_tt tt1)
  have disc3: "\<forall>t ts. map_of tags ''TPOS'' = Some (TextFrame (t # ts)) \<longrightarrow>
              (\<forall>n m. t = n @ ''/'' @ m \<and> CHR ''/'' \<notin> set n \<longrightarrow>
                 vc_get ''DISCNUMBER'' d3 = [n] \<and> vc_get ''DISCTOTAL'' d3 = [m]) \<and>
              (CHR ''/'' \<notin> set t \<longrightarrow>
                 vc_get ''DISCNUMBER'' d3 = [t] \<and> vc_get ''DISCTOTAL'' d3 = vc_get ''DISCTOTAL'' d)"
    using disc by (simp only: k_dt dt1)
  from res track3 disc3 show ?thesis by blast
qed

theorem track_disc_numbers_split_witness:
  "[(''TRCK'', TextFrame [''3/12'']), (''TPOS'', TextFrame [''1''])] \<noteq> [] \<and>
   number_frame_ok ''TRCK'' [(''TRCK'', TextFrame [''3/12'']), (''TPOS'', TextFrame [''1''])] \<and>
   number_frame_ok ''TPOS'' [(''TRCK'', TextFrame [''3/12'']), (''TPOS'', TextFrame [''1''])] \<and>
   (\<exists>d'. copy_id3_to_vorbis (Some [(''TRCK'', TextFrame [''3/12'']), (''TPOS'', TextFrame [''1''])])
             [(''tracktotal'', ''99'')] = Inr d' \<and>
          vc_get ''TRACKNUMBER'' d' = [''3''] \<and> vc_get ''TRACKTOTAL'' d' = [''12''] \<and>
          vc_get ''DISCNUMBER'' d' = [''1''] \<and> vc_get ''DISCTOTAL'' d' = [])"
proof -
  let ?tags = "[(''TRCK'', TextFrame [''3/12'']), (''TPOS'', TextFrame [''1''])]"
  have h1: "?tags \<noteq> []" by simp
  have h2: "number_frame_ok ''TRCK'' ?tags" by (simp add: number_frame_ok_def)
  have h3: "number_frame_ok ''TPOS'' ?tags" by (simp add: number_frame_ok_def)
  obtain d' where res: "copy_id3_to_vorbis (Some ?tags) [(''tracktotal'', ''99'')] = Inr d'"
    and track: "\<forall>t ts. map_of ?tags ''TRCK'' = Some (TextFrame (t # ts)) \<longrightarrow>
              (\<forall>n m. t = n @ ''/'' @ m \<and> CHR ''/'' \<notin> set n \<longrightarrow>
                 vc_get ''TRACKNUMBER'' d' = [n] \<and> vc_get ''TRACKTOTAL'' d' = [m]) \<and>
              (CHR ''/'' \<notin> set t \<longrightarrow>
                 vc_get ''TRACKNUMBER'' d' = [t] \<and>
                 vc_get ''TRACKTOTAL'' d' = vc_get ''TRACKTOTAL'' [(''tracktotal'', ''99'')])"
    and disc: "\<forall>t ts. map_of ?tags ''TPOS'' = Some (TextFrame (t # ts)) \<longrightarrow>
              (\<forall>n m. t = n @ ''/'' @ m \<and> CHR ''/'' \<notin> set n \<longrightarrow>
                 vc_get ''DISCNUMBER'' d' = [n] \<and> vc_get ''DISCTOTAL'' d' = [m]) \<and>
              (CHR ''/'' \<notin> set t \<longrightarrow>
                 vc_get ''DISCNUMBER'' d' = [t] \<and>
                 vc_get ''DISCTOTAL'' d' = vc_get ''DISCTOTAL'' [(''tracktotal'', ''99'')])"
    using track_disc_numbers_split [OF h1 h2 h3, of "[(''tracktotal'', ''99'')]"] by blast
  have "map_of ?tags ''TRCK'' = Some (TextFrame [''3/12''])" by simp
  with track have "\<forall>n m. ''3/12'' = n @ ''/'' @ m \<and> CHR ''/'' \<notin> set n \<longrightarrow>
                 vc_get ''TRACKNUMBER'' d' = [n] \<and> vc_get ''TRACKTOTAL'' d' = [m]"
    by blast
  from this [rule_format, of "''3''" "''12''"]
  have t: "vc_get ''TRACKNUMBER'' d' = [''3''] \<and> vc_get ''TRACKTOTAL'' d' = [''12'']" by simp
  have "map_of ?tags ''TPOS'' = Some (TextFrame [''1''])" by simp
  with disc have "CHR ''/'' \<notin> set ''1'' \<longrightarrow>
                 vc_get ''DISCNUMBER'' d' = [''1''] \<and>
                 vc_get ''DISCTOTAL'' d' = vc_get ''DISCTOTAL'' [(''tracktotal'', ''99'')]"
    by blast
  then have d: "vc_get ''DISCNUMBER'' d' = [''1''] \<and> vc_get ''DISCTOTAL'' d' = []"
    by (simp add: vc_get_def lower_def lower_char_def)
  from h1 h2 h3 res t d show ?thesis by blast
qed

section \<open>Tag transcription: \<open>copy_tags\<close> never raises\<close>









section \<open>Overall progress\<close>

text \<open>
  Claim C10. \<open>_calculate_overall_progress\<close> returns 0 when the job list is empty; for a
  non-empty list it returns the three counters plus the sum of the \<open>progress\<close> of the
  jobs whose status is \<open>processing\<close>, divided by the number of jobs; and it never raises
  \<open>ZeroDivisionError\<close> (nor anything else).
\<close>

theorem overall_progress_guarded:
  "(jobs m = [] \<longrightarrow> calculate_overall_progress m = Inr 0) \<and>
   (jobs m \<noteq> [] \<longrightarrow>
      calculate_overall_progress m =
        Inr ((of_int (converted_count m + skipped_count m + error_count m)
              + sum_list (map progress (filter (\<lambda>j. status j = ''processing'') (jobs m))))
             / of_nat (length (jobs m)))) \<and>
   (\<forall>e. calculate_overall_progress m \<noteq> Inl e)"
  by (simp add: calculate_overall_progress_def py_truediv_def Let_def)

theorem overall_progress_guarded_witness:
  "jobs (ConversionManager default_settings) = [] \<and>
   calculate_overall_progress (ConversionManager default_settings) = Inr 0 \<and>
   calculate_overall_progress
     ((ConversionManager default_settings)
        \<lparr>jobs := [(ConversionJob [''a.mp3''] [''a.opus''])\<lparr>status := ''completed''\<rparr>,
                  (ConversionJob [''b.mp3''] [''b.opus''])\<lparr>status := ''processing'', progress := 1 / 2\<rparr>],
         converted_count := 1\<rparr>) = Inr (3 / 4)"
proof -
  let ?m = "(ConversionManager default_settings)
        \<lparr>jobs := [(ConversionJob [''a.mp3''] [''a.opus''])\<lparr>status := ''completed''\<rparr>,
                  (ConversionJob [''b.mp3''] [''b.opus''])\<lparr>status := ''processing'', progress := 1 / 2\<rparr>],
         converted_count := 1\<rparr>"
  have e: "jobs (ConversionManager default_settings) = []" by (simp add: ConversionManager_def)
  have a: "calculate_overall_progress (ConversionManager default_settings) = Inr 0"
    using overall_progress_guarded [of "ConversionManager default_settings"] e by simp
  have n: "jobs ?m \<noteq> []" by simp
  have b: "calculate_overall_progress ?m = Inr (3 / 4)"
    using overall_progress_guarded [of ?m] n
    by (simp add: ConversionManager_def ConversionJob_def)
  from e a b show ?thesis by blast
qed

section \<open>Bitrate policy\<close>







section \<open>Starting a batch\<close>




section \<open>Discovery\<close>

text \<open>
  Counterexample to claim C4 as stated: the source folder \<open>music\<close> does not exist in
  the empty file system; discovery yields the empty list and the run ends with the
  message that no files were found, without an \<open>error\<close> message.
\<close>

theorem missing_root_no_error:
  "fs_lookup (DirNode []) (source_folder music_settings) = None \<and>
   discover_files music_settings (DirNode []) = [] \<and>
   exec [Call, Discover (DirNode [])] (initial music_settings) =
     Some \<lparr>mgr = ConversionManager music_settings,
           queue = [Log ''Scanning for MP3 files...'' ''info'',
                    Log ''No MP3 files found in source directory'' ''warning''],
           pc = Returned, futures = [], pool_size = 0\<rparr>"
  by code_simp

lemma rglob_not_dir:
  "fs_lookup fs p = None \<or> fs_lookup fs p = Some FileNode \<Longrightarrow> rglob fs p = []"
  by (auto simp: rglob_def)

lemma batch_discover_empty:
  assumes "discover_files st fs = []"
  shows "exec [Call, Discover fs] (initial st) =
     Some \<lparr>mgr = ConversionManager st,
           queue = [Log ''Scanning for MP3 files...'' ''info'',
                    Log ''No MP3 files found in source directory'' ''warning''],
           pc = Returned, futures = [], pool_size = 0\<rparr>"
  using assms
  by (simp add: initial_def batch_enter_def batch_discover_def batch_finally_def put_def
                ConversionManager_def Let_def)

text \<open>
  Claim C4, as amended. A source root that is missing or is not a directory makes
  discovery yield the empty list, as a root without matching files does; discovery raises
  nothing. On an empty list the run puts the scanning message and the message that no
  files were found, no \<open>error\<close> message, creates no pool and no future, and returns.
\<close>

theorem discovery_never_fails:
  "(fs_lookup fs (source_folder st) = None \<or> fs_lookup fs (source_folder st) = Some FileNode
      \<longrightarrow> discover_files st fs = []) \<and>
   (\<forall>es. fs_lookup fs (source_folder st) = Some (DirNode es) \<and>
         rglob_dir (source_folder st) (DirNode es) = []
      \<longrightarrow> discover_files st fs = []) \<and>
   (discover_files st fs = [] \<longrightarrow>
      exec [Call, Discover fs] (initial st) =
        Some \<lparr>mgr = ConversionManager st,
              queue = [Log ''Scanning for MP3 files...'' ''info'',
                       Log ''No MP3 files found in source directory'' ''warning''],
              pc = Returned, futures = [], pool_size = 0\<rparr>)"
proof -
  have a: "fs_lookup fs (source_folder st) = None \<or> fs_lookup fs (source_folder st) = Some FileNode
      \<longrightarrow> discover_files st fs = []"
    using rglob_not_dir by (auto simp: discover_files_def)
  have b: "\<forall>es. fs_lookup fs (source_folder st) = Some (DirNode es) \<and>
         rglob_dir (source_folder st) (DirNode es) = []
      \<longrightarrow> discover_files st fs = []"
    by (auto simp: discover_files_def rglob_def)
  from a b batch_discover_empty show ?thesis by blast
qed

theorem discovery_never_fails_witness:
  "fs_lookup (DirNode []) (source_folder music_settings) = None \<and>
   discover_files music_settings (DirNode []) = [] \<and>
   fs_lookup (DirNode [(''music'', FileNode)]) (source_folder music_settings) = Some FileNode \<and>
   discover_files music_settings (DirNode [(''music'', FileNode)]) = [] \<and>
   fs_lookup fs_no_mp3 (source_folder music_settings) = Some (DirNode [(''notes.txt'', FileNode)]) \<and>
   rglob_dir (source_folder music_settings) (DirNode [(''notes.txt'', FileNode)]) = [] \<and>
   discover_files music_settings fs_no_mp3 = [] \<and>
   map_option queue (exec [Call, Discover (DirNode [])] (initial music_settings)) =
     Some [Log ''Scanning for MP3 files...'' ''info'',
           Log ''No MP3 files found in source directory'' ''warning'']"
proof -
  have l1: "fs_lookup (DirNode []) (source_folder music_settings) = None" by code_simp
  have l2: "fs_lookup (DirNode [(''music'', FileNode)]) (source_folder music_settings) = Some FileNode"
    by code_simp
  have l3: "fs_lookup fs_no_mp3 (source_folder music_settings) = Some (DirNode [(''notes.txt'', FileNode)])"
    by code_simp
  have l4: "rglob_dir (source_folder music_settings) (DirNode [(''notes.txt'', FileNode)]) = []"
    by code_simp
  note t1 = discovery_never_fails [of "DirNode []" music_settings]
  note t2 = discovery_never_fails [of "DirNode [(''music'', FileNode)]" music_settings]
  note t3 = discovery_never_fails [of fs_no_mp3 music_settings]
  have d1: "discover_files music_settings (DirNode []) = []" using t1 l1 by blast
  have d2: "discover_files music_settings (DirNode [(''music'', FileNode)]) = []" using t2 l2 by blast
  have d3: "discover_files music_settings fs_no_mp3 = []" using t3 l3 l4 by blast
  have q: "map_option queue (exec [Call, Discover (DirNode [])] (initial music_settings)) =
     Some [Log ''Scanning for MP3 files...'' ''info'',
           Log ''No MP3 files found in source directory'' ''warning'']"
    using t1 d1 by simp
  from l1 l2 l3 l4 d1 d2 d3 q show ?thesis by blast
qed

section \<open>Runs of the orchestrator at concrete inputs\<close>

text \<open>
  Claim C2 at a source folder without tracks: the run puts the scanning message and the
  message that no files were found and returns; no \<open>complete\<close> message is put (the
  \<open>return\<close> of line 85 leaves before line 146). No pool is created.
\<close>

theorem no_files_no_complete:
  "discover_files music_settings fs_no_mp3 = [] \<and>
   exec [Call, Discover fs_no_mp3] (initial music_settings) =
     Some \<lparr>mgr = ConversionManager music_settings,
           queue = [Log ''Scanning for MP3 files...'' ''info'',
                    Log ''No MP3 files found in source directory'' ''warning''],
           pc = Returned, futures = [], pool_size = 0\<rparr>"
  by code_simp

text \<open>
  Claim C1 at one job whose destination directory cannot be created, without any
  cancellation: \<open>mkdir\<close> raises before \<open>engine\<close> is assigned, the \<open>except\<close> clause of
  \<open>_process_job\<close> counts the error, its \<open>finally\<close> clause raises
  \<open>UnboundLocalError\<close>, and \<open>convert_batch\<close> counts the raised future again: the
  \<open>complete\<close> message reports two errors for one job.
\<close>

theorem failed_mkdir_counted_twice:
  "exec [Call, Discover fs_one, LoopCheck, Dispatch False, LoopCheck,
         WorkerStart (Some (Raised OSError ''File exists'')) ReadFalsy,
         WaitCheck, Join, WaitCheck] (initial music_settings) =
     Some \<lparr>mgr = \<lparr>settings = music_settings, is_running = False, is_paused = False,
                  should_cancel = False,
                  jobs = [(ConversionJob [''music'', ''a.mp3''] [''out'', ''a.opus''])
                            \<lparr>status := ''error'', error := Some ''File exists''\<rparr>],
                  active_engines = [], executor = None,
                  converted_count = 0, skipped_count = 0, error_count = 2\<rparr>,
           queue = [Log ''Scanning for MP3 files...'' ''info'',
                    Log ''Found 1 MP3 files to convert'' ''info'',
                    Progress 0 0 ''a.mp3'',
                    Log ''Converting: a.mp3'' ''info'',
                    Log ''Failed: a.mp3 - File exists'' ''error'',
                    Complete 0 0 2],
           pc = Returned,
           futures = [(0, FRaised (Raised UnboundLocalError
                          ''local variable engine referenced before assignment''))],
           pool_size = 1\<rparr>"
  by code_simp

text \<open>
  Claim C6 at two jobs, the first with an existing destination: the user pauses, the
  submission loop sleeps in its pause loop before the first job, the user cancels. The
  pause loop ends and the loop body still runs for the first job: the job, which no
  worker ever started, becomes \<open>skipped\<close> and is counted, after \<open>cancel()\<close>.
\<close>

theorem cancel_while_paused_still_skips:
  "exec [Call, Discover fs_two, Pause, LoopCheck, Dispatch True, Cancel] (initial music_settings) =
     Some \<lparr>mgr = \<lparr>settings = music_settings, is_running = True, is_paused = True,
                  should_cancel = True,
                  jobs = [ConversionJob [''music'', ''a.mp3''] [''out'', ''a.opus''],
                          ConversionJob [''music'', ''sub'', ''b.mp3''] [''out'', ''sub'', ''b.opus'']],
                  active_engines = [],
                  executor = Some \<lparr>max_workers = 2, is_shutdown = True\<rparr>,
                  converted_count = 0, skipped_count = 0, error_count = 0\<rparr>,
           queue = [Log ''Scanning for MP3 files...'' ''info'',
                    Log ''Found 2 MP3 files to convert'' ''info''],
           pc = PauseLoop 0, futures = [], pool_size = 2\<rparr> \<and>
   exec [Call, Discover fs_two, Pause, LoopCheck, Dispatch True, Cancel, Dispatch True]
        (initial music_settings) =
     Some \<lparr>mgr = \<lparr>settings = music_settings, is_running = True, is_paused = True,
                  should_cancel = True,
                  jobs = [(ConversionJob [''music'', ''a.mp3''] [''out'', ''a.opus''])
                            \<lparr>status := ''skipped''\<rparr>,
                          ConversionJob [''music'', ''sub'', ''b.mp3''] [''out'', ''sub'', ''b.opus'']],
                  active_engines = [],
                  executor = Some \<lparr>max_workers = 2, is_shutdown = True\<rparr>,
                  converted_count = 0, skipped_count = 1, error_count = 0\<rparr>,
           queue = [Log ''Scanning for MP3 files...'' ''info'',
                    Log ''Found 2 MP3 files to convert'' ''info'',
                    Log ''Skipped: a.mp3'' ''info''],
           pc = ForHead 1, futures = [], pool_size = 2\<rparr>"
  by code_simp

text \<open>
  The same schedule when the destination does not exist: the loop body tries to submit
  the job to the pool that \<open>cancel()\<close> has shut down, and the run ends with an
  \<open>error\<close> message instead of a \<open>complete\<close> message.
\<close>

lemma cancel_while_paused_submit_raises:
  "map_option queue
     (exec [Call, Discover fs_two, Pause, LoopCheck, Dispatch False, Cancel, Dispatch False]
        (initial music_settings)) =
     Some [Log ''Scanning for MP3 files...'' ''info'',
           Log ''Found 2 MP3 files to convert'' ''info'',
           ErrorMsg ''Batch conversion failed: cannot schedule new futures after shutdown'']"
  by code_simp

text \<open>
  Claim C7 at one job: a worker has taken the job and its encoder runs (the future is
  running, the engine is registered), and the job's status is still \<open>pending\<close>; when
  the encoder ends, the status goes from \<open>pending\<close> to \<open>completed\<close>. No statement
  assigns \<open>processing\<close>, the value that \<open>_calculate_overall_progress\<close> filters on:
  the overall progress reported at half of the only job is 0.
\<close>

theorem encoding_job_stays_pending:
  "exec [Call, Discover fs_one, LoopCheck, Dispatch False,
         WorkerStart None (ReadGenre ''Classical'')] (initial music_settings) =
     Some \<lparr>mgr = \<lparr>settings = music_settings, is_running = True, is_paused = False,
                  should_cancel = False,
                  jobs = [ConversionJob [''music'', ''a.mp3''] [''out'', ''a.opus'']],
                  active_engines = [0],
                  executor = Some \<lparr>max_workers = 1, is_shutdown = False\<rparr>,
                  converted_count = 0, skipped_count = 0, error_count = 0\<rparr>,
           queue = [Log ''Scanning for MP3 files...'' ''info'',
                    Log ''Found 1 MP3 files to convert'' ''info'',
                    Progress 0 0 ''a.mp3'',
                    Log ''Converting: a.mp3'' ''info''],
           pc = ForHead 1, futures = [(0, FRunning 200)], pool_size = 1\<rparr> \<and>
   status (ConversionJob [''music'', ''a.mp3''] [''out'', ''a.opus'']) = ''pending'' \<and>
   map_option (map status \<circ> jobs \<circ> mgr)
     (exec [Call, Discover fs_one, LoopCheck, Dispatch False,
            WorkerStart None (ReadGenre ''Classical''), WorkerProgress 0 (1 / 2)]
        (initial music_settings)) = Some [''pending''] \<and>
   map_option (last \<circ> queue)
     (exec [Call, Discover fs_one, LoopCheck, Dispatch False,
            WorkerStart None (ReadGenre ''Classical''), WorkerProgress 0 (1 / 2)]
        (initial music_settings)) = Some (Progress 0 (1 / 2) ''a.mp3'') \<and>
   map_option (map status \<circ> jobs \<circ> mgr)
     (exec [Call, Discover fs_one, LoopCheck, Dispatch False,
            WorkerStart None (ReadGenre ''Classical''), WorkerProgress 0 (1 / 2),
            WorkerFinish 0 (Inr True) no_tags]
        (initial music_settings)) = Some [''completed'']"
  by code_simp

section \<open>Supporting invariant: no job is ever \<open>processing\<close>\<close>

lemma list_update_all:
  assumes "\<forall>x \<in> set xs. Q x" and "\<forall>x \<in> set xs. Q (f x)"
  shows "\<forall>x \<in> set (xs[i := f (xs ! i)]). Q x"
proof (cases "i < length xs")
  case True
  then have "Q (f (xs ! i))" using assms(2) by simp
  with assms(1) show ?thesis
    using set_update_subset_insert [of xs i "f (xs ! i)"] by auto
next
  case False
  then have "xs[i := f (xs ! i)] = xs" by (simp add: list_update_beyond)
  with assms(1) show ?thesis by simp
qed

lemma update_job_statuses:
  assumes "statuses_ok s" and "\<And>x. status x \<noteq> ''processing'' \<Longrightarrow> status (f x) \<noteq> ''processing''"
  shows "statuses_ok (update_job i f s)"
  using assms list_update_all [of "jobs (mgr s)" "\<lambda>x. status x \<noteq> ''processing''" f i]
  by (simp add: statuses_ok_def update_job_def)

lemma statuses_ok_cong:
  "jobs (mgr s') = jobs (mgr s) \<Longrightarrow> statuses_ok s \<Longrightarrow> statuses_ok s'"
  by (simp add: statuses_ok_def)

lemma put_jobs [simp]: "jobs (mgr (put msg s)) = jobs (mgr s)"
  by (simp add: put_def)

lemma batch_finally_jobs [simp]: "jobs (mgr (batch_finally s)) = jobs (mgr s)"
  by (simp add: batch_finally_def)

lemma batch_failed_jobs [simp]: "jobs (mgr (batch_failed e s)) = jobs (mgr s)"
  by (simp add: batch_failed_def)

lemma batch_complete_jobs [simp]: "jobs (mgr (batch_complete s)) = jobs (mgr s)"
  by (simp add: batch_complete_def)

lemma job_finally_jobs [simp]: "jobs (mgr (job_finally k j s)) = jobs (mgr s)"
  by (simp add: job_finally_def)

lemma job_finally_unbound_jobs [simp]: "jobs (mgr (job_finally_unbound k j s)) = jobs (mgr s)"
  by (simp add: job_finally_unbound_def)

lemma discover_files_pending: "\<forall>j \<in> set (discover_files st fs). status j = ''pending''"
  by (simp add: discover_files_def ConversionJob_def)

lemma batch_discover_statuses: "statuses_ok (batch_discover fs s)"
proof -
  have "jobs (mgr (batch_discover fs s)) = discover_files (settings (mgr s)) fs"
    by (simp add: batch_discover_def Let_def)
  then show ?thesis using discover_files_pending by (simp add: statuses_ok_def)
qed

lemma job_except_statuses: "statuses_ok s \<Longrightarrow> statuses_ok (job_except j e s)"
proof -
  assume a: "statuses_ok s"
  let ?s1 = "s\<lparr>mgr := (mgr s)\<lparr>error_count := error_count (mgr s) + 1\<rparr>\<rparr>"
  have "statuses_ok ?s1" using a by (simp add: statuses_ok_def)
  then have "statuses_ok (update_job j (\<lambda>x. x\<lparr>status := ''error'', error := Some (exn_str e)\<rparr>) ?s1)"
    by (rule update_job_statuses) simp
  then show ?thesis by (simp add: job_except_def Let_def statuses_ok_def)
qed

lemma job_success_statuses: "statuses_ok s \<Longrightarrow> statuses_ok (job_success j s)"
proof -
  assume a: "statuses_ok s"
  let ?s1 = "s\<lparr>mgr := (mgr s)\<lparr>converted_count := converted_count (mgr s) + 1\<rparr>\<rparr>"
  have "statuses_ok ?s1" using a by (simp add: statuses_ok_def)
  then have "statuses_ok (update_job j (\<lambda>x. x\<lparr>status := ''completed''\<rparr>) ?s1)"
    by (rule update_job_statuses) simp
  then show ?thesis by (simp add: job_success_def Let_def statuses_ok_def)
qed

lemma batch_dispatch_statuses: "statuses_ok s \<Longrightarrow> statuses_ok (batch_dispatch i ex s)"
proof -
  assume a: "statuses_ok s"
  let ?s1 = "s\<lparr>mgr := (mgr s)\<lparr>skipped_count := skipped_count (mgr s) + 1\<rparr>\<rparr>"
  have "statuses_ok ?s1" using a by (simp add: statuses_ok_def)
  then have "statuses_ok (update_job i (\<lambda>j. j\<lparr>status := ''skipped''\<rparr>) ?s1)"
    by (rule update_job_statuses) simp
  with a show ?thesis
    by (auto simp: batch_dispatch_def Let_def statuses_ok_def split: option.splits sum.splits)
qed

lemma job_start_statuses: "statuses_ok s \<Longrightarrow> statuses_ok (job_start k j mk rd s)"
proof -
  assume a: "statuses_ok s"
  define s1 where "s1 = put (Log (''Converting: '' @ job_name s j) ''info'') s"
  define s2 where "s2 = s1\<lparr>mgr := (mgr s1)\<lparr>active_engines := active_engines (mgr s1) @ [j]\<rparr>\<rparr>"
  have ok1: "statuses_ok s1" using a by (simp add: s1_def statuses_ok_def)
  have ok2: "statuses_ok s2" using ok1 by (simp add: s2_def statuses_ok_def)
  show ?thesis
  proof (cases mk)
    case (Some e)
    have "statuses_ok (job_finally_unbound k j (job_except j e s1))"
      using job_except_statuses [OF ok1, of j e] by (simp add: statuses_ok_def)
    with Some show ?thesis by (simp add: job_start_def s1_def)
  next
    case None
    show ?thesis
    proof (cases "get_adjusted_bitrate (settings (mgr s)) rd")
      case (Inl e)
      have "statuses_ok (job_finally k j (job_except j e s2))"
        using job_except_statuses [OF ok2, of j e] by (simp add: statuses_ok_def)
      with None Inl show ?thesis by (simp add: job_start_def s1_def s2_def Let_def)
    next
      case (Inr b)
      have "statuses_ok (s2\<lparr>futures := (futures s2)[k := (j, FRunning b)]\<rparr>)"
        using ok2 by (simp add: statuses_ok_def)
      with None Inr show ?thesis by (simp add: job_start_def s1_def s2_def Let_def)
    qed
  qed
qed

lemma job_progress_statuses: "statuses_ok s \<Longrightarrow> statuses_ok (job_progress j p s)"
proof -
  assume a: "statuses_ok s"
  have "statuses_ok (update_job j (\<lambda>x. x\<lparr>progress := p\<rparr>) s)"
    using a by (rule update_job_statuses) simp
  then show ?thesis
    by (auto simp: job_progress_def Let_def statuses_ok_def split: sum.splits)
qed

lemma job_finish_statuses: "statuses_ok s \<Longrightarrow> statuses_ok (job_finish k j out tw s)"
  using job_except_statuses [of s j] job_success_statuses [of s j]
  by (auto simp: job_finish_def statuses_ok_def split: sum.splits bool.splits)

lemma step_statuses: "step l s = Some s' \<Longrightarrow> statuses_ok s \<Longrightarrow> statuses_ok s'"
proof (cases l)
  case Call
  then show "step l s = Some s' \<Longrightarrow> statuses_ok s \<Longrightarrow> statuses_ok s'"
    by (auto simp: batch_enter_def statuses_ok_def split: pc.splits)
next
  case (Discover fs)
  then show "step l s = Some s' \<Longrightarrow> statuses_ok s \<Longrightarrow> statuses_ok s'"
    using batch_discover_statuses by (auto split: pc.splits)
next
  case LoopCheck
  then show "step l s = Some s' \<Longrightarrow> statuses_ok s \<Longrightarrow> statuses_ok s'"
    by (auto simp: statuses_ok_def split: pc.splits if_splits)
next
  case (Dispatch ex)
  then show "step l s = Some s' \<Longrightarrow> statuses_ok s \<Longrightarrow> statuses_ok s'"
    using batch_dispatch_statuses by (auto split: pc.splits if_splits)
next
  case WaitCheck
  then show "step l s = Some s' \<Longrightarrow> statuses_ok s \<Longrightarrow> statuses_ok s'"
    by (auto simp: statuses_ok_def split: pc.splits if_splits)
next
  case Join
  then show "step l s = Some s' \<Longrightarrow> statuses_ok s \<Longrightarrow> statuses_ok s'"
    by (auto simp: statuses_ok_def split: pc.splits future_state.splits)
next
  case (WorkerStart mk rd)
  then show "step l s = Some s' \<Longrightarrow> statuses_ok s \<Longrightarrow> statuses_ok s'"
    using job_start_statuses by (auto split: option.splits if_splits)
next
  case (WorkerProgress j p)
  then show "step l s = Some s' \<Longrightarrow> statuses_ok s \<Longrightarrow> statuses_ok s'"
    using job_progress_statuses by (auto split: option.splits)
next
  case (WorkerFinish j out tw)
  then show "step l s = Some s' \<Longrightarrow> statuses_ok s \<Longrightarrow> statuses_ok s'"
    using job_finish_statuses by (auto split: option.splits)
next
  case Pause
  then show "step l s = Some s' \<Longrightarrow> statuses_ok s \<Longrightarrow> statuses_ok s'"
    by (auto simp: statuses_ok_def pause_def)
next
  case Resume
  then show "step l s = Some s' \<Longrightarrow> statuses_ok s \<Longrightarrow> statuses_ok s'"
    by (auto simp: statuses_ok_def resume_def)
next
  case Cancel
  then show "step l s = Some s' \<Longrightarrow> statuses_ok s \<Longrightarrow> statuses_ok s'"
    by (auto simp: statuses_ok_def cancel_def)
qed

lemma exec_statuses: "exec ls s = Some s' \<Longrightarrow> statuses_ok s \<Longrightarrow> statuses_ok s'"
proof (induction ls arbitrary: s)
  case Nil
  then show ?case by simp
next
  case (Cons l ls)
  then obtain s1 where "step l s = Some s1" and "exec ls s1 = Some s'"
    by (auto split: option.splits)
  with Cons show ?case using step_statuses by blast
qed

text \<open>
  In every state that a run reaches, under every schedule, no job has the status
  \<open>processing\<close>, so the in-progress sum of \<open>_calculate_overall_progress\<close> is
  empty.
\<close>

lemma status_never_processing:
  assumes "exec ls (initial st) = Some s"
  shows "(\<forall>j \<in> set (jobs (mgr s)). status j \<noteq> ''processing'') \<and>
         filter (\<lambda>j. status j = ''processing'') (jobs (mgr s)) = []"
proof -
  have "statuses_ok (initial st)"
    by (simp add: statuses_ok_def initial_def ConversionManager_def)
  with assms have "statuses_ok s" by (rule exec_statuses)
  then show ?thesis by (auto simp: statuses_ok_def filter_empty_conv)
qed

section \<open>Supporting invariant: nothing is submitted after \<open>cancel()\<close>\<close>

lemma first_pending_Some: "first_pending fs = Some k \<Longrightarrow> k < length fs \<and> snd (fs ! k) = FPending"
proof (induction fs arbitrary: k)
  case Nil
  then show ?case by simp
next
  case (Cons f fs)
  show ?case
  proof (cases "snd f = FPending")
    case True
    with Cons.prems show ?thesis by simp
  next
    case False
    with Cons.prems obtain k' where "first_pending fs = Some k'" and "k = Suc k'" by auto
    with Cons.IH show ?thesis by simp
  qed
qed

lemma running_position_Some:
  "running_position j fs = Some k \<Longrightarrow> k < length fs \<and> fst (fs ! k) = j \<and> is_running_future (fs ! k)"
proof (induction fs arbitrary: k)
  case Nil
  then show ?case by simp
next
  case (Cons f fs)
  show ?case
  proof (cases "fst f = j \<and> is_running_future f")
    case True
    with Cons.prems show ?thesis by simp
  next
    case False
    with Cons.prems obtain k' where "running_position j fs = Some k'" and "k = Suc k'" by auto
    with Cons.IH show ?thesis by simp
  qed
qed

lemma map_fst_update_same: "map fst (fs[k := (fst (fs ! k), x)]) = map fst fs"
proof (cases "k < length fs")
  case True
  then show ?thesis by (simp add: map_update list_update_same_conv)
next
  case False
  then show ?thesis by (simp add: list_update_beyond)
qed

lemma job_except_frame:
  "should_cancel (mgr (job_except j e s)) = should_cancel (mgr s)"
  "executor (mgr (job_except j e s)) = executor (mgr s)"
  "pc (job_except j e s) = pc s" "futures (job_except j e s) = futures s"
  by (simp_all add: job_except_def update_job_def put_def Let_def)

lemma job_success_frame:
  "should_cancel (mgr (job_success j s)) = should_cancel (mgr s)"
  "executor (mgr (job_success j s)) = executor (mgr s)"
  "pc (job_success j s) = pc s" "futures (job_success j s) = futures s"
  by (simp_all add: job_success_def update_job_def put_def Let_def)

lemma job_finish_frame:
  "should_cancel (mgr (job_finish k j out tw s)) = should_cancel (mgr s)"
  "executor (mgr (job_finish k j out tw s)) = executor (mgr s)"
  "pc (job_finish k j out tw s) = pc s"
  "futures (job_finish k j out tw s) = (futures s)[k := (j, FFinished)]"
  by (auto simp: job_finish_def job_finally_def job_except_frame job_success_frame
           split: sum.splits bool.splits)

lemma job_progress_frame:
  "should_cancel (mgr (job_progress j p s)) = should_cancel (mgr s)"
  "executor (mgr (job_progress j p s)) = executor (mgr s)"
  "pc (job_progress j p s) = pc s" "futures (job_progress j p s) = futures s"
  by (auto simp: job_progress_def update_job_def put_def Let_def split: sum.splits)

lemma job_start_frame:
  "should_cancel (mgr (job_start k j mk rd s)) = should_cancel (mgr s)"
  "executor (mgr (job_start k j mk rd s)) = executor (mgr s)"
  "pc (job_start k j mk rd s) = pc s"
  "\<exists>x. futures (job_start k j mk rd s) = (futures s)[k := (j, x)]"
  by (auto simp: job_start_def job_finally_def job_finally_unbound_def job_except_frame put_def
                 Let_def split: sum.splits option.splits)

lemma batch_discover_frame:
  "should_cancel (mgr (batch_discover fs s)) = should_cancel (mgr s)"
  "pc (batch_discover fs s) = Returned \<or> pc (batch_discover fs s) = ForHead 0"
  "futures (batch_discover fs s) = futures s"
  by (simp_all add: batch_discover_def batch_finally_def batch_failed_def put_def Let_def)

lemma batch_dispatch_frame:
  "should_cancel (mgr (batch_dispatch i ex s)) = should_cancel (mgr s)"
  "pc (batch_dispatch i ex s) = Returned \<or> pc (batch_dispatch i ex s) = ForHead (Suc i)"
  by (auto simp: batch_dispatch_def batch_finally_def batch_failed_def put_def update_job_def
                 Let_def split: option.splits sum.splits)

lemma batch_dispatch_shut:
  assumes "case executor (mgr s) of None \<Rightarrow> True | Some ex \<Rightarrow> is_shutdown ex"
  shows "futures (batch_dispatch i ex s) = futures s"
  using assms
  by (auto simp: batch_dispatch_def batch_finally_def batch_failed_def put_def update_job_def
                 Let_def split: option.splits)

lemma batch_complete_frame:
  "should_cancel (mgr (batch_complete s)) = should_cancel (mgr s)"
  "pc (batch_complete s) = Returned" "futures (batch_complete s) = futures s"
  by (simp_all add: batch_complete_def batch_finally_def put_def)

lemma cancelledI:
  "should_cancel (mgr s) \<Longrightarrow> pc s = Returned \<or> (\<exists>i. pc s = ForHead i) \<or> (\<exists>k. pc s = WaitHead k)
     \<or> (\<exists>k. pc s = InResult k) \<or> pc s = Discovering \<Longrightarrow> cancelled s"
  by (auto simp: cancelled_def)

lemma step_cancelled:
  assumes c: "cancelled s" and st: "step l s = Some s'"
  shows "cancelled s' \<and> submitted s' = submitted s"
proof (cases l)
  case Call
  with c st show ?thesis by (auto simp: cancelled_def split: pc.splits)
next
  case (Discover fs)
  with st have s': "s' = batch_discover fs s" by (auto split: pc.splits)
  have "cancelled s'"
    using c batch_discover_frame [of fs s] unfolding s'
    by (intro cancelledI) (auto simp: cancelled_def)
  moreover have "submitted s' = submitted s"
    by (simp add: s' submitted_def batch_discover_frame)
  ultimately show ?thesis by simp
next
  case LoopCheck
  with c st show ?thesis
    by (auto simp: cancelled_def submitted_def split: pc.splits if_splits)
next
  case (Dispatch ex)
  with st obtain i where i: "pc s = PauseLoop i" by (auto split: pc.splits)
  with c have sc: "should_cancel (mgr s)"
    and sh: "case executor (mgr s) of None \<Rightarrow> True | Some ex \<Rightarrow> is_shutdown ex"
    by (simp_all add: cancelled_def)
  from st Dispatch i sc have s': "s' = batch_dispatch i ex s" by simp
  have "cancelled s'"
    using sc batch_dispatch_frame [of i ex s] unfolding s'
    by (intro cancelledI) auto
  moreover have "submitted s' = submitted s"
    using batch_dispatch_shut [OF sh] by (simp add: s' submitted_def)
  ultimately show ?thesis by simp
next
  case WaitCheck
  with st obtain k where k: "pc s = WaitHead k" by (auto split: pc.splits)
  from c have sc: "should_cancel (mgr s)" by (simp add: cancelled_def)
  show ?thesis
  proof (cases "length (futures s) \<le> k")
    case True
    with st WaitCheck k have s': "s' = batch_complete s" by simp
    have "cancelled s'" using sc unfolding s' by (intro cancelledI) (simp_all add: batch_complete_frame)
    then show ?thesis by (simp add: s' submitted_def batch_complete_frame)
  next
    case False
    with st WaitCheck k sc
    have s': "s' = s\<lparr>futures := (futures s)[k := (fst (futures s ! k),
                          if snd (futures s ! k) = FPending then FCancelled else snd (futures s ! k))],
                        pc := WaitHead (Suc k)\<rparr>"
      by simp
    have "cancelled s'" using sc unfolding s' by (intro cancelledI) simp_all
    moreover have "submitted s' = submitted s"
      unfolding s' submitted_def by (simp add: map_fst_update_same)
    ultimately show ?thesis by simp
  qed
next
  case Join
  with c st show ?thesis
    by (auto simp: cancelled_def submitted_def split: pc.splits future_state.splits)
next
  case (WorkerStart mk rd)
  with st obtain k where k: "first_pending (futures s) = Some k"
    and s': "s' = job_start k (fst (futures s ! k)) mk rd s"
    by (auto split: option.splits if_splits)
  obtain x where "futures s' = (futures s)[k := (fst (futures s ! k), x)]"
    using job_start_frame(4) [of k "fst (futures s ! k)" mk rd s] s' by auto
  then have "submitted s' = submitted s" by (simp add: submitted_def map_fst_update_same)
  moreover have "cancelled s'" using c s' by (auto simp: cancelled_def job_start_frame split: pc.splits)
  ultimately show ?thesis by simp
next
  case (WorkerProgress j p)
  with st have s': "s' = job_progress j p s" by (auto split: option.splits)
  show ?thesis using c by (auto simp: s' cancelled_def submitted_def job_progress_frame split: pc.splits)
next
  case (WorkerFinish j out tw)
  with st obtain k where k: "running_position j (futures s) = Some k"
    and s': "s' = job_finish k j out tw s"
    by (auto split: option.splits)
  have "fst (futures s ! k) = j" using running_position_Some [OF k] by simp
  then have "futures s' = (futures s)[k := (fst (futures s ! k), FFinished)]"
    using s' by (simp add: job_finish_frame)
  then have "submitted s' = submitted s" by (simp add: submitted_def map_fst_update_same)
  moreover have "cancelled s'" using c s' by (auto simp: cancelled_def job_finish_frame split: pc.splits)
  ultimately show ?thesis by simp
next
  case Pause
  with c st show ?thesis by (auto simp: cancelled_def submitted_def pause_def split: pc.splits)
next
  case Resume
  with c st show ?thesis by (auto simp: cancelled_def submitted_def resume_def split: pc.splits)
next
  case Cancel
  with st have s': "s' = s\<lparr>mgr := cancel (mgr s)\<rparr>" by simp
  show ?thesis using c
    by (auto simp: s' cancelled_def submitted_def cancel_def split: pc.splits option.splits)
qed

lemma exec_cancelled:
  "cancelled s \<Longrightarrow> exec ls s = Some s' \<Longrightarrow> cancelled s' \<and> submitted s' = submitted s"
proof (induction ls arbitrary: s)
  case Nil
  then show ?case by simp
next
  case (Cons l ls)
  then obtain s1 where s1: "step l s = Some s1" and rest: "exec ls s1 = Some s'"
    by (auto split: option.splits)
  from step_cancelled [OF Cons.prems(1) s1] Cons.IH [OF _ rest] show ?case by simp
qed

text \<open>
  Once \<open>cancel()\<close> has run during a call of \<open>convert_batch\<close>, whatever happens
  next, the jobs submitted to the pool stay the same: no future is added.
\<close>

lemma no_submission_after_cancel:
  assumes "pc s \<noteq> Idle" and "exec (Cancel # ls) s = Some s'"
  shows "map fst (futures s') = map fst (futures s) \<and> should_cancel (mgr s')"
proof -
  let ?s1 = "s\<lparr>mgr := cancel (mgr s)\<rparr>"
  have c: "cancelled ?s1"
    using assms(1) by (auto simp: cancelled_def cancel_def split: pc.splits option.splits)
  have "exec ls ?s1 = Some s'" using assms(2) by simp
  from exec_cancelled [OF c this] show ?thesis
    by (simp add: submitted_def cancelled_def)
qed

section \<open>Supporting invariant: the counters when every \<open>mkdir\<close> succeeds\<close>

lemma running_not_finished: "is_running_future f \<Longrightarrow> snd f \<noteq> FFinished \<and> sound_future (snd f)"
  by (cases f rule: is_running_future.cases) auto

lemma finished_count_update_other:
  "k < length fs \<Longrightarrow> snd (fs ! k) \<noteq> FFinished \<Longrightarrow> x \<noteq> FFinished
     \<Longrightarrow> finished_count (fs[k := (j, x)]) = finished_count fs"
proof (induction fs arbitrary: k)
  case Nil
  then show ?case by simp
next
  case (Cons f fs)
  then show ?case by (cases k) (auto simp: finished_count_def)
qed

lemma finished_count_update_done:
  "k < length fs \<Longrightarrow> snd (fs ! k) \<noteq> FFinished
     \<Longrightarrow> finished_count (fs[k := (j, FFinished)]) = Suc (finished_count fs)"
proof (induction fs arbitrary: k)
  case Nil
  then show ?case by simp
next
  case (Cons f fs)
  then show ?case by (cases k) (auto simp: finished_count_def)
qed

lemma finished_count_all:
  "(\<forall>f \<in> set fs. snd f = FFinished) \<Longrightarrow> finished_count fs = length fs"
  by (simp add: finished_count_def)

lemma finished_count_le: "finished_count fs \<le> length fs"
  by (simp add: finished_count_def)

lemma accounted_bound:
  assumes "accounted s"
  shows "counted s \<le> int (job_total s)"
proof -
  from assms have ce: "converted_count (mgr s) + error_count (mgr s) = int (finished_count (futures s))"
    and pl: "placed (pc s) (skipped_count (mgr s)) (futures s) (job_total s)"
    by (simp_all add: accounted_def)
  from pl have "skipped_count (mgr s) + int (length (futures s)) \<le> int (job_total s)"
    by (cases "pc s") auto
  moreover have "int (finished_count (futures s)) \<le> int (length (futures s))"
    using finished_count_le by simp
  ultimately show ?thesis using ce by (simp add: counted_def)
qed

lemma accounted_complete:
  assumes "accounted s" and "Complete c k e \<in> set (queue s)"
  shows "c + k + e = int (job_total s) \<and> counted s = int (job_total s)"
proof -
  from assms(2) have "Complete c k e \<in> set (completes s)" by (simp add: completes_def)
  with assms(1) have m: "Complete c k e =
        Complete (converted_count (mgr s)) (skipped_count (mgr s)) (error_count (mgr s))"
    and fin: "\<forall>f \<in> set (futures s). snd f = FFinished"
    and sum: "skipped_count (mgr s) + int (length (futures s)) = int (job_total s)"
    and ce: "converted_count (mgr s) + error_count (mgr s) = int (finished_count (futures s))"
    by (auto simp: accounted_def)
  from fin have "finished_count (futures s) = length (futures s)" by (rule finished_count_all)
  with ce sum have "counted s = int (job_total s)" by (simp add: counted_def)
  with m show ?thesis by (simp add: counted_def)
qed

lemma completes_put: "completes (put m s) = completes s @ (if is_complete m then [m] else [])"
  by (simp add: completes_def put_def)

lemma put_frame:
  "mgr (put m s) = mgr s" "pc (put m s) = pc s" "futures (put m s) = futures s"
  "job_total (put m s) = job_total s"
  by (simp_all add: put_def job_total_def)

lemma update_job_frame:
  "should_cancel (mgr (update_job i f s)) = should_cancel (mgr s)"
  "converted_count (mgr (update_job i f s)) = converted_count (mgr s)"
  "error_count (mgr (update_job i f s)) = error_count (mgr s)"
  "skipped_count (mgr (update_job i f s)) = skipped_count (mgr s)"
  "job_total (update_job i f s) = job_total s"
  "completes (update_job i f s) = completes s"
  "pc (update_job i f s) = pc s" "futures (update_job i f s) = futures s"
  by (simp_all add: update_job_def job_total_def completes_def)

lemma job_except_tally:
  "should_cancel (mgr (job_except j e s)) = should_cancel (mgr s)"
  "converted_count (mgr (job_except j e s)) = converted_count (mgr s)"
  "error_count (mgr (job_except j e s)) = error_count (mgr s) + 1"
  "skipped_count (mgr (job_except j e s)) = skipped_count (mgr s)"
  "job_total (job_except j e s) = job_total s"
  "completes (job_except j e s) = completes s"
  "pc (job_except j e s) = pc s" "futures (job_except j e s) = futures s"
  by (simp_all add: job_except_def Let_def put_frame completes_put update_job_frame)
     (simp_all add: job_total_def completes_def)

lemma job_success_tally:
  "should_cancel (mgr (job_success j s)) = should_cancel (mgr s)"
  "converted_count (mgr (job_success j s)) = converted_count (mgr s) + 1"
  "error_count (mgr (job_success j s)) = error_count (mgr s)"
  "skipped_count (mgr (job_success j s)) = skipped_count (mgr s)"
  "job_total (job_success j s) = job_total s"
  "completes (job_success j s) = completes s"
  "pc (job_success j s) = pc s" "futures (job_success j s) = futures s"
  by (simp_all add: job_success_def Let_def put_frame completes_put update_job_frame)
     (simp_all add: job_total_def completes_def)

lemma job_finally_tally:
  "should_cancel (mgr (job_finally k j s)) = should_cancel (mgr s)"
  "converted_count (mgr (job_finally k j s)) = converted_count (mgr s)"
  "error_count (mgr (job_finally k j s)) = error_count (mgr s)"
  "skipped_count (mgr (job_finally k j s)) = skipped_count (mgr s)"
  "job_total (job_finally k j s) = job_total s"
  "completes (job_finally k j s) = completes s"
  "pc (job_finally k j s) = pc s"
  "futures (job_finally k j s) = (futures s)[k := (j, FFinished)]"
  by (simp_all add: job_finally_def job_total_def completes_def)

lemma get_adjusted_bitrate_returns: "\<exists>b. get_adjusted_bitrate st rd = Inr b"
  by (auto simp: get_adjusted_bitrate_def split: sum.splits option.splits)

lemma job_finish_tally:
  "should_cancel (mgr (job_finish k j out tw s)) = should_cancel (mgr s)"
  "converted_count (mgr (job_finish k j out tw s)) + error_count (mgr (job_finish k j out tw s))
     = converted_count (mgr s) + error_count (mgr s) + 1"
  "skipped_count (mgr (job_finish k j out tw s)) = skipped_count (mgr s)"
  "job_total (job_finish k j out tw s) = job_total s"
  "completes (job_finish k j out tw s) = completes s"
  "pc (job_finish k j out tw s) = pc s"
  "futures (job_finish k j out tw s) = (futures s)[k := (j, FFinished)]"
  by (auto simp: job_finish_def job_finally_tally job_except_tally job_success_tally
           split: sum.splits bool.splits)

lemma job_start_tally:
  "should_cancel (mgr (job_start k j None rd s)) = should_cancel (mgr s)"
  "converted_count (mgr (job_start k j None rd s)) = converted_count (mgr s)"
  "error_count (mgr (job_start k j None rd s)) = error_count (mgr s)"
  "skipped_count (mgr (job_start k j None rd s)) = skipped_count (mgr s)"
  "job_total (job_start k j None rd s) = job_total s"
  "completes (job_start k j None rd s) = completes s"
  "pc (job_start k j None rd s) = pc s"
  "\<exists>b. futures (job_start k j None rd s) = (futures s)[k := (j, FRunning b)]"
  using get_adjusted_bitrate_returns [of "settings (mgr s)" rd]
  by (auto simp: job_start_def Let_def put_def job_total_def completes_def)

lemma job_progress_tally:
  "should_cancel (mgr (job_progress j p s)) = should_cancel (mgr s)"
  "converted_count (mgr (job_progress j p s)) = converted_count (mgr s)"
  "error_count (mgr (job_progress j p s)) = error_count (mgr s)"
  "skipped_count (mgr (job_progress j p s)) = skipped_count (mgr s)"
  "job_total (job_progress j p s) = job_total s"
  "completes (job_progress j p s) = completes s"
  "pc (job_progress j p s) = pc s" "futures (job_progress j p s) = futures s"
  by (auto simp: job_progress_def Let_def put_frame completes_put update_job_frame
           split: sum.splits)

lemma batch_finally_tally:
  "should_cancel (mgr (batch_finally s)) = should_cancel (mgr s)"
  "converted_count (mgr (batch_finally s)) = converted_count (mgr s)"
  "error_count (mgr (batch_finally s)) = error_count (mgr s)"
  "skipped_count (mgr (batch_finally s)) = skipped_count (mgr s)"
  "job_total (batch_finally s) = job_total s"
  "completes (batch_finally s) = completes s"
  "pc (batch_finally s) = Returned" "futures (batch_finally s) = futures s"
  by (simp_all add: batch_finally_def job_total_def completes_def)

lemma batch_failed_tally:
  "should_cancel (mgr (batch_failed e s)) = should_cancel (mgr s)"
  "converted_count (mgr (batch_failed e s)) = converted_count (mgr s)"
  "error_count (mgr (batch_failed e s)) = error_count (mgr s)"
  "skipped_count (mgr (batch_failed e s)) = skipped_count (mgr s)"
  "job_total (batch_failed e s) = job_total s"
  "completes (batch_failed e s) = completes s"
  "pc (batch_failed e s) = Returned" "futures (batch_failed e s) = futures s"
  by (simp_all add: batch_failed_def batch_finally_tally put_frame completes_put)

lemma batch_complete_tally:
  "should_cancel (mgr (batch_complete s)) = should_cancel (mgr s)"
  "converted_count (mgr (batch_complete s)) = converted_count (mgr s)"
  "error_count (mgr (batch_complete s)) = error_count (mgr s)"
  "skipped_count (mgr (batch_complete s)) = skipped_count (mgr s)"
  "job_total (batch_complete s) = job_total s"
  "completes (batch_complete s) = completes s @
     [Complete (converted_count (mgr s)) (skipped_count (mgr s)) (error_count (mgr s))]"
  "pc (batch_complete s) = Returned" "futures (batch_complete s) = futures s"
  by (simp_all add: batch_complete_def batch_finally_tally put_frame completes_put)

lemma accounted_no_complete: "accounted s \<Longrightarrow> pc s \<noteq> Returned \<Longrightarrow> completes s = []"
  by (cases "completes s") (auto simp: accounted_def)

lemma accounted_unfinished:
  assumes "accounted s" and "k < length (futures s)" and "snd (futures s ! k) \<noteq> FFinished"
  shows "completes s = []"
proof (cases "completes s")
  case Nil
  then show ?thesis .
next
  case (Cons m ms)
  with assms(1) have "\<forall>f \<in> set (futures s). snd f = FFinished" by (auto simp: accounted_def)
  with assms(2,3) show ?thesis by auto
qed

lemma placed_update:
  assumes "placed p sk fs n" and "k < length fs" and "snd (fs ! k) \<noteq> FFinished"
  shows "placed p sk (fs[k := y]) n"
proof (cases p)
  case (WaitHead i)
  with assms show ?thesis by (auto simp: nth_list_update)
next
  case (InResult i)
  with assms show ?thesis by (auto simp: nth_list_update)
qed (use assms in auto)

lemma sound_update:
  assumes "\<forall>f \<in> set fs. sound_future (snd f)" and "sound_future x"
  shows "\<forall>f \<in> set (fs[k := (j, x)]). sound_future (snd f)"
  using assms set_update_subset_insert [of fs k "(j, x)"] by auto

lemma step_accounted_Call:
  assumes a: "accounted s" and c: "calm (Call)" and st: "step (Call) s = Some s'"
  shows "accounted s'"
proof -
  from st have i: "pc s = Idle" by (auto split: pc.splits)
  from st i have s': "s' = s\<lparr>mgr := (mgr s)\<lparr>is_running := True, should_cancel := False,
             converted_count := 0, skipped_count := 0, error_count := 0\<rparr>,
          queue := queue s @ [Log ''Scanning for MP3 files...'' ''info''], pc := Discovering\<rparr>"
    by (simp add: batch_enter_def)
  have nc: "completes s = []" using accounted_no_complete [OF a] i by simp
  have "futures s = []" using a i by (simp add: accounted_def)
  with nc show ?thesis
    unfolding s' by (simp add: accounted_def completes_def finished_count_def job_total_def)
qed

lemma batch_discover_tally:
  "should_cancel (mgr (batch_discover fs s)) = should_cancel (mgr s)"
  "converted_count (mgr (batch_discover fs s)) = converted_count (mgr s)"
  "error_count (mgr (batch_discover fs s)) = error_count (mgr s)"
  "skipped_count (mgr (batch_discover fs s)) = skipped_count (mgr s)"
  "completes (batch_discover fs s) = completes s"
  "futures (batch_discover fs s) = futures s"
  "pc (batch_discover fs s) = Returned \<or> pc (batch_discover fs s) = ForHead 0"
  by (simp_all add: batch_discover_def batch_failed_def batch_finally_def put_def Let_def
                    completes_def)

lemma step_accounted_Discover:
  assumes a: "accounted s" and c: "calm (Discover fs)" and st: "step (Discover fs) s = Some s'"
  shows "accounted s'"
proof -
  from st have i: "pc s = Discovering" and s': "s' = batch_discover fs s"
    by (auto split: pc.splits)
  have nc: "completes s = []" using accounted_no_complete [OF a] i by simp
  from a i have f: "futures s = []" and sk: "skipped_count (mgr s) = 0"
    and ce: "converted_count (mgr s) + error_count (mgr s) = 0"
    and sc: "\<not> should_cancel (mgr s)"
    by (simp_all add: accounted_def finished_count_def)
  have "placed (pc s') 0 [] (job_total s')"
    using batch_discover_tally(7) [of fs s] unfolding s' by auto
  then show ?thesis
    using nc f sk ce sc
    by (simp add: accounted_def s' batch_discover_tally finished_count_def)
qed

lemma step_accounted_LoopCheck:
  assumes a: "accounted s" and c: "calm (LoopCheck)" and st: "step (LoopCheck) s = Some s'"
  shows "accounted s'"
proof -
  from st obtain i where i: "pc s = ForHead i" by (auto split: pc.splits)
  have nc: "completes s = []" using accounted_no_complete [OF a] i by simp
  from a have sc: "\<not> should_cancel (mgr s)" by (simp add: accounted_def)
  from st i sc
  have s': "s' = (if length (jobs (mgr s)) \<le> i then s\<lparr>pc := WaitHead 0\<rparr> else s\<lparr>pc := PauseLoop i\<rparr>)"
    by (auto split: if_splits)
  show ?thesis
    using a i nc unfolding s'
    by (auto simp: accounted_def completes_def job_total_def)
qed

lemma step_accounted_Dispatch:
  assumes a: "accounted s" and c: "calm (Dispatch ex)" and st: "step (Dispatch ex) s = Some s'"
  shows "accounted s'"
proof -
  from st obtain i where i: "pc s = PauseLoop i" by (auto split: pc.splits)
  have nc: "completes s = []" using accounted_no_complete [OF a] i by simp
  from a i have sc: "\<not> should_cancel (mgr s)"
    and snd_ok: "\<forall>f \<in> set (futures s). sound_future (snd f)"
    and ce: "converted_count (mgr s) + error_count (mgr s) = int (finished_count (futures s))"
    and pl: "skipped_count (mgr s) + int (length (futures s)) = int i" and lt: "i < job_total s"
    by (simp_all add: accounted_def)
  show ?thesis
  proof (cases "is_paused (mgr s)")
    case True
    with st i sc have "s' = s" by simp
    with a show ?thesis by simp
  next
    case False
    with st i have s': "s' = batch_dispatch i ex s" by simp
    show ?thesis
    proof (cases "should_skip (settings (mgr s)) ex")
      case True
      then have "s' = (put (Log (''Skipped: '' @ job_name s i) ''info'')
                    (update_job i (\<lambda>j. j\<lparr>status := ''skipped''\<rparr>)
                       (s\<lparr>mgr := (mgr s)\<lparr>skipped_count := skipped_count (mgr s) + 1\<rparr>\<rparr>)))
                  \<lparr>pc := ForHead (Suc i)\<rparr>"
        by (simp add: s' batch_dispatch_def Let_def)
      then show ?thesis
        using nc sc snd_ok ce pl lt
        by (simp add: accounted_def put_def update_job_def completes_def job_total_def)
    next
      case noskip: False
      show ?thesis
      proof (cases "executor (mgr s)")
        case None
        with noskip have "s' = batch_failed (Raised AttributeError ''submit'') s"
          by (simp add: s' batch_dispatch_def)
        then show ?thesis
          using nc sc snd_ok ce pl lt by (simp add: accounted_def batch_failed_tally)
      next
        case (Some x)
        show ?thesis
        proof (cases "is_shutdown x")
          case True
          with noskip Some
          have "s' = batch_failed (Raised RuntimeError ''cannot schedule new futures after shutdown'') s"
            by (simp add: s' batch_dispatch_def)
          then show ?thesis
            using nc sc snd_ok ce pl lt by (simp add: accounted_def batch_failed_tally)
        next
          case False
          let ?s1 = "s\<lparr>futures := futures s @ [(i, FPending)]\<rparr>"
          have base: "accounted (?s1\<lparr>pc := ForHead (Suc i)\<rparr>)"
            using nc sc snd_ok ce pl lt
            by (simp add: accounted_def completes_def job_total_def finished_count_def)
          have s'_cases: "(\<exists>e. s' = batch_failed e ?s1) \<or>
                          (\<exists>m. \<not> is_complete m \<and> s' = (put m ?s1)\<lparr>pc := ForHead (Suc i)\<rparr>)"
          proof (cases "py_truediv (of_int (converted_count (mgr s) + skipped_count (mgr s)
                                + error_count (mgr s))) (of_nat (length (jobs (mgr s))))")
            case (Inl e)
            with noskip Some False have "s' = batch_failed e ?s1"
              by (simp add: s' batch_dispatch_def Let_def)
            then show ?thesis by blast
          next
            case (Inr overall)
            with noskip Some False
            have "s' = (put (Progress overall 0 (job_name s i)) ?s1)\<lparr>pc := ForHead (Suc i)\<rparr>"
              by (simp add: s' batch_dispatch_def Let_def)
            moreover have "\<not> is_complete (Progress overall 0 (job_name s i))" by simp
            ultimately show ?thesis by blast
          qed
          then show ?thesis
          proof
            assume "\<exists>e. s' = batch_failed e ?s1"
            then obtain e where "s' = batch_failed e ?s1" by blast
            then show ?thesis
              using nc sc snd_ok ce pl lt
              by (simp add: accounted_def batch_failed_tally)
                 (simp add: completes_def job_total_def finished_count_def)
          next
            assume "\<exists>m. \<not> is_complete m \<and> s' = (put m ?s1)\<lparr>pc := ForHead (Suc i)\<rparr>"
            then obtain m where "\<not> is_complete m" and "s' = (put m ?s1)\<lparr>pc := ForHead (Suc i)\<rparr>"
              by blast
            then show ?thesis
              using base by (simp add: accounted_def put_def completes_def job_total_def)
          qed
        qed
      qed
    qed
  qed
qed

lemma step_accounted_WaitCheck:
  assumes a: "accounted s" and c: "calm (WaitCheck)" and st: "step (WaitCheck) s = Some s'"
  shows "accounted s'"
proof -
  from st obtain k where k: "pc s = WaitHead k" by (auto split: pc.splits)
  have nc: "completes s = []" using accounted_no_complete [OF a] k by simp
  from a k have sc: "\<not> should_cancel (mgr s)"
    and snd_ok: "\<forall>f \<in> set (futures s). sound_future (snd f)"
    and ce: "converted_count (mgr s) + error_count (mgr s) = int (finished_count (futures s))"
    and pl: "skipped_count (mgr s) + int (length (futures s)) = int (job_total s)"
    and kl: "k \<le> length (futures s)" and fin: "\<forall>m<k. snd (futures s ! m) = FFinished"
    by (simp_all add: accounted_def)
  show ?thesis
  proof (cases "length (futures s) \<le> k")
    case True
    with st k have s': "s' = batch_complete s" by simp
    have "\<forall>f \<in> set (futures s). snd f = FFinished"
    proof
      fix f assume "f \<in> set (futures s)"
      then obtain n where n: "n < length (futures s)" and f: "futures s ! n = f"
        by (auto simp: in_set_conv_nth)
      from n True have "n < k" by simp
      with fin f show "snd f = FFinished" by auto
    qed
    then show ?thesis
      using nc sc snd_ok ce pl unfolding s'
      by (simp add: accounted_def batch_complete_tally)
  next
    case False
    with st k sc have s': "s' = s\<lparr>pc := InResult k\<rparr>" by simp
    show ?thesis
      using nc sc snd_ok ce pl fin False unfolding s'
      by (simp add: accounted_def completes_def job_total_def)
  qed
qed

lemma step_accounted_Join:
  assumes a: "accounted s" and c: "calm (Join)" and st: "step (Join) s = Some s'"
  shows "accounted s'"
proof -
  from st obtain k where k: "pc s = InResult k" by (auto split: pc.splits)
  have nc: "completes s = []" using accounted_no_complete [OF a] k by simp
  from a k have sc: "\<not> should_cancel (mgr s)"
    and snd_ok: "\<forall>f \<in> set (futures s). sound_future (snd f)"
    and ce: "converted_count (mgr s) + error_count (mgr s) = int (finished_count (futures s))"
    and pl: "skipped_count (mgr s) + int (length (futures s)) = int (job_total s)"
    and kl: "k < length (futures s)" and fin: "\<forall>m<k. snd (futures s ! m) = FFinished"
    by (simp_all add: accounted_def)
  from snd_ok kl have "sound_future (snd (futures s ! k))" by simp
  with st k have fk: "snd (futures s ! k) = FFinished" and s': "s' = s\<lparr>pc := WaitHead (Suc k)\<rparr>"
    by (auto split: future_state.splits)
  have "\<forall>m<Suc k. snd (futures s ! m) = FFinished"
    using fin fk by (auto simp: less_Suc_eq)
  then show ?thesis
    using nc sc snd_ok ce pl kl unfolding s'
    by (simp add: accounted_def completes_def job_total_def)
qed

lemma step_accounted_WorkerStart:
  assumes a: "accounted s" and c: "calm (WorkerStart mk rd)" and st: "step (WorkerStart mk rd) s = Some s'"
  shows "accounted s'"
proof -
  from c have mk: "mk = None" by (cases mk) auto
  from st obtain k where k: "first_pending (futures s) = Some k"
    and s': "s' = job_start k (fst (futures s ! k)) None rd s"
    by (auto simp: mk split: option.splits if_splits)
  from first_pending_Some [OF k] have kl: "k < length (futures s)"
    and pend: "snd (futures s ! k) = FPending" by simp_all
  then have nf: "snd (futures s ! k) \<noteq> FFinished" by simp
  have nc: "completes s = []" using accounted_unfinished [OF a kl nf] .
  obtain b where fs': "futures s' = (futures s)[k := (fst (futures s ! k), FRunning b)]"
    using job_start_tally(8) [of k "fst (futures s ! k)" rd s] s' by auto
  from a have sc: "\<not> should_cancel (mgr s)"
    and snd_ok: "\<forall>f \<in> set (futures s). sound_future (snd f)"
    and ce: "converted_count (mgr s) + error_count (mgr s) = int (finished_count (futures s))"
    and pl: "placed (pc s) (skipped_count (mgr s)) (futures s) (job_total s)"
    by (simp_all add: accounted_def)
  have f1: "finished_count (futures s') = finished_count (futures s)"
    unfolding fs' using finished_count_update_other [OF kl nf] by simp
  have f2: "\<forall>f \<in> set (futures s'). sound_future (snd f)"
    unfolding fs' by (rule sound_update [OF snd_ok]) simp
  have f3: "placed (pc s) (skipped_count (mgr s)) (futures s') (job_total s)"
    unfolding fs' using placed_update [OF pl kl nf] .
  show ?thesis
    using nc sc ce f1 f2 f3
    by (simp add: accounted_def) (simp add: s' job_start_tally)
qed

lemma step_accounted_WorkerProgress:
  assumes a: "accounted s" and c: "calm (WorkerProgress j p)" and st: "step (WorkerProgress j p) s = Some s'"
  shows "accounted s'"
proof -
  from st have s': "s' = job_progress j p s" by (auto split: option.splits)
  show ?thesis using a by (simp add: accounted_def s' job_progress_tally)
qed

lemma step_accounted_WorkerFinish:
  assumes a: "accounted s" and c: "calm (WorkerFinish j out tw)" and st: "step (WorkerFinish j out tw) s = Some s'"
  shows "accounted s'"
proof -
  from st obtain k where k: "running_position j (futures s) = Some k"
    and s': "s' = job_finish k j out tw s"
    by (auto split: option.splits)
  from running_position_Some [OF k] have kl: "k < length (futures s)"
    and run: "is_running_future (futures s ! k)" by simp_all
  then have nf: "snd (futures s ! k) \<noteq> FFinished" using running_not_finished by blast
  have nc: "completes s = []" using accounted_unfinished [OF a kl nf] .
  have fs': "futures s' = (futures s)[k := (j, FFinished)]" by (simp add: s' job_finish_tally)
  from a have sc: "\<not> should_cancel (mgr s)"
    and snd_ok: "\<forall>f \<in> set (futures s). sound_future (snd f)"
    and ce: "converted_count (mgr s) + error_count (mgr s) = int (finished_count (futures s))"
    and pl: "placed (pc s) (skipped_count (mgr s)) (futures s) (job_total s)"
    by (simp_all add: accounted_def)
  have f1: "finished_count (futures s') = Suc (finished_count (futures s))"
    unfolding fs' using finished_count_update_done [OF kl nf] by simp
  have f2: "\<forall>f \<in> set (futures s'). sound_future (snd f)"
    unfolding fs' by (rule sound_update [OF snd_ok]) simp
  have f3: "placed (pc s) (skipped_count (mgr s)) (futures s') (job_total s)"
    unfolding fs' using placed_update [OF pl kl nf] .
  have f4: "converted_count (mgr s') + error_count (mgr s') = int (finished_count (futures s'))"
    using ce f1 by (simp add: s' job_finish_tally)
  show ?thesis
    using nc sc f2 f3 f4
    by (simp add: accounted_def) (simp add: s' job_finish_tally)
qed

lemma step_accounted_Pause:
  assumes a: "accounted s" and c: "calm (Pause)" and st: "step (Pause) s = Some s'"
  shows "accounted s'"
proof -
  from st have "s' = s\<lparr>mgr := (mgr s)\<lparr>is_paused := True\<rparr>\<rparr>" by (simp add: pause_def)
  with a show ?thesis by (simp add: accounted_def completes_def job_total_def)
qed

lemma step_accounted_Resume:
  assumes a: "accounted s" and c: "calm (Resume)" and st: "step (Resume) s = Some s'"
  shows "accounted s'"
proof -
  from st have "s' = s\<lparr>mgr := (mgr s)\<lparr>is_paused := False\<rparr>\<rparr>" by (simp add: resume_def)
  with a show ?thesis by (simp add: accounted_def completes_def job_total_def)
qed

lemma step_accounted:
  assumes a: "accounted s" and c: "calm l" and st: "step l s = Some s'"
  shows "accounted s'"
proof (cases l)
  case Call
  with a c st show ?thesis using step_accounted_Call by blast
next
  case (Discover fs)
  with a c st show ?thesis using step_accounted_Discover by blast
next
  case LoopCheck
  with a c st show ?thesis using step_accounted_LoopCheck by blast
next
  case (Dispatch ex)
  with a c st show ?thesis using step_accounted_Dispatch by blast
next
  case WaitCheck
  with a c st show ?thesis using step_accounted_WaitCheck by blast
next
  case Join
  with a c st show ?thesis using step_accounted_Join by blast
next
  case (WorkerStart mk rd)
  with a c st show ?thesis using step_accounted_WorkerStart by blast
next
  case (WorkerProgress j p)
  with a c st show ?thesis using step_accounted_WorkerProgress by blast
next
  case (WorkerFinish j out tw)
  with a c st show ?thesis using step_accounted_WorkerFinish by blast
next
  case Pause
  with a c st show ?thesis using step_accounted_Pause by blast
next
  case Resume
  with a c st show ?thesis using step_accounted_Resume by blast
next
  case Cancel
  with c show ?thesis by simp
qed

lemma exec_accounted:
  "accounted s \<Longrightarrow> list_all calm ls \<Longrightarrow> exec ls s = Some s' \<Longrightarrow> accounted s'"
proof (induction ls arbitrary: s)
  case Nil
  then show ?case by simp
next
  case (Cons l ls)
  then obtain s1 where s1: "step l s = Some s1" and rest: "exec ls s1 = Some s'"
    by (auto split: option.splits)
  have "accounted s1" using step_accounted [OF Cons.prems(1) _ s1] Cons.prems(2) by simp
  with Cons.IH rest Cons.prems(2) show ?case by simp
qed

text \<open>
  On every run without cancellation in which no \<open>mkdir\<close> raises, at every point the
  three counters add up to at most the number of jobs, and a \<open>complete\<close> message on
  the queue carries counts that add up to the number of jobs, as do the counters then.
\<close>

lemma counter_invariant_calm_runs:
  assumes "list_all calm ls" and "exec ls (initial st) = Some s"
  shows "counted s \<le> int (job_total s) \<and>
         (\<forall>c k e. Complete c k e \<in> set (queue s) \<longrightarrow>
            c + k + e = int (job_total s) \<and> counted s = int (job_total s))"
proof -
  have "accounted (initial st)"
    by (simp add: accounted_def initial_def ConversionManager_def completes_def
                  finished_count_def job_total_def)
  then have "accounted s" using assms by (rule exec_accounted)
  then show ?thesis using accounted_bound accounted_complete by blast
qed

end
